theory Spec2Isabelle
  imports Main
begin

section \<open>Strings and characters\<close>

text \<open>
  A document is a \<^typ>\<open>string\<close>: a list of characters, each standing for one code unit
  below 256 of the JavaScript string. The character classes are those of the
  regular expressions of the source: \<open>\s\<close>, \<open>\d\<close>, \<open>\w\<close> and the dot.
\<close>

definition isSpace :: "char \<Rightarrow> bool" where
  "isSpace c = (c \<in> set [CHR 0x09, CHR 0x0A, CHR 0x0B, CHR 0x0C, CHR 0x0D, CHR 0x20, CHR 0xA0])"

definition isDigit :: "char \<Rightarrow> bool" where
  "isDigit c = (c \<in> set ''0123456789'')"

definition isWord :: "char \<Rightarrow> bool" where
  "isWord c = (c \<in> set ''abcdefghijklmnopqrstuvwxyzABCDEFGHIJKLMNOPQRSTUVWXYZ0123456789_'')"

definition isDot :: "char \<Rightarrow> bool" where
  "isDot c = (c \<noteq> CHR 0x0A \<and> c \<noteq> CHR 0x0D)"

definition isAny :: "char \<Rightarrow> bool" where
  "isAny c = (isSpace c \<or> \<not> isSpace c)"

definition trim :: "string \<Rightarrow> string" where
  "trim s = rev (dropWhile isSpace (rev (dropWhile isSpace s)))"

definition startsWith :: "string \<Rightarrow> string \<Rightarrow> bool" where
  "startsWith s p = (take (length p) s = p)"

text \<open>\<open>s.split(d)\<close> for a separator of one character: never an empty array.\<close>

fun splitOn :: "char \<Rightarrow> string \<Rightarrow> string list" where
  "splitOn d [] = [[]]"
| "splitOn d (c # cs) =
     (let r = splitOn d cs in if c = d then [] # r else (c # hd r) # tl r)"

fun joinWith :: "string \<Rightarrow> string list \<Rightarrow> string" where
  "joinWith d [] = []"
| "joinWith d [x] = x"
| "joinWith d (x # y # ys) = x @ d @ joinWith d (y # ys)"

text \<open>\<open>s.substring(a, b)\<close>: both indices clamped to the string, swapped when out of order.\<close>

definition substring :: "string \<Rightarrow> int \<Rightarrow> int \<Rightarrow> string" where
  "substring s a b =
     (let n = int (length s);
          a' = max 0 (min a n);
          b' = max 0 (min b n);
          lo = min a' b';
          hi = max a' b'
      in take (nat (hi - lo)) (drop (nat lo) s))"

text \<open>\<open>s[i]\<close>: \<open>undefined\<close> outside the string.\<close>

definition charAt :: "string \<Rightarrow> int \<Rightarrow> char option" where
  "charAt s i = (if 0 \<le> i \<and> i < int (length s) then Some (s ! nat i) else None)"

text \<open>\<open>s.indexOf(t)\<close> and \<open>s.lastIndexOf(c)\<close>: \<open>-1\<close> when there is no occurrence.\<close>

fun indexOf :: "string \<Rightarrow> string \<Rightarrow> int" where
  "indexOf [] t = (if t = [] then 0 else -1)"
| "indexOf (c # cs) t =
     (if startsWith (c # cs) t then 0
      else (let k = indexOf cs t in if k < 0 then -1 else k + 1))"

fun lastIndexOfChar :: "string \<Rightarrow> char \<Rightarrow> int" where
  "lastIndexOfChar [] d = -1"
| "lastIndexOfChar (c # cs) d =
     (let k = lastIndexOfChar cs d in
      if 0 \<le> k then k + 1 else if c = d then 0 else -1)"

text \<open>The number of matches of \<open>/\{/g\<close> or \<open>/\}/g\<close> in a line.\<close>

definition countChar :: "char \<Rightarrow> string \<Rightarrow> nat" where
  "countChar d s = length (filter (\<lambda>c. c = d) s)"

text \<open>
  \<open>parseInt\<close> on a run of decimal digits. A JavaScript number holds every integer up to
  \<open>2^53\<close> exactly; above that \<open>parseInt\<close> returns the nearest double, which the
  embedding names and does not compute.
\<close>

datatype jsnumber = Exact nat | NearestDouble nat

definition digitValue :: "char \<Rightarrow> nat" where
  "digitValue c = of_char c - 48"

definition decimal :: "string \<Rightarrow> nat" where
  "decimal ds = foldl (\<lambda>acc c. 10 * acc + digitValue c) 0 ds"

definition parseInt :: "string \<Rightarrow> jsnumber" where
  "parseInt ds = (let n = decimal ds in if n \<le> 2 ^ 53 then Exact n else NearestDouble n)"

section \<open>Regular expressions\<close>

text \<open>
  The source works through JavaScript regular expressions. Each is written here as a
  term of \<open>rx\<close>, constructor by constructor, and run by a backtracking matcher that
  returns the matches in the order in which the engine would try them: a greedy star
  takes one more round before it stops, a lazy star stops before it takes one more
  round, an alternative tries its left branch first.
\<close>

datatype rx =
    Atom "char \<Rightarrow> bool"
  | Eps
  | Seq rx rx
  | Alt rx rx
  | Star rx
  | Lazy rx
  | Opt rx
  | Grp nat rx
  | Bol
  | Eol
  | WordB

type_synonym caps = "nat \<Rightarrow> string option"
type_synonym mstate = "caps \<times> string"

definition prevChar :: "string \<Rightarrow> string \<Rightarrow> char option" where
  "prevChar inp s =
     (if length s < length inp then Some (inp ! (length inp - length s - 1)) else None)"

definition atBoundary :: "string \<Rightarrow> string \<Rightarrow> bool" where
  "atBoundary inp s =
     ((case prevChar inp s of None \<Rightarrow> False | Some c \<Rightarrow> isWord c)
      \<noteq> (case s of [] \<Rightarrow> False | c # _ \<Rightarrow> isWord c))"

text \<open>
  \<open>mt inp r (cs, s)\<close>: the ways in which \<open>r\<close> matches at the suffix \<open>s\<close> of the input
  \<open>inp\<close>, with the groups captured so far in \<open>cs\<close>; each result carries the captures
  and the rest of the input. A round of a star (or of \<open>?\<close>) that consumes nothing is
  dropped, as the engine does.
\<close>

function mt :: "string \<Rightarrow> rx \<Rightarrow> mstate \<Rightarrow> mstate list" where
  "mt inp (Atom p) (cs, s) =
     (case s of [] \<Rightarrow> [] | c # s' \<Rightarrow> if p c then [(cs, s')] else [])"
| "mt inp Eps st = [st]"
| "mt inp (Seq a b) st = concat (map (mt inp b) (mt inp a st))"
| "mt inp (Alt a b) st = mt inp a st @ mt inp b st"
| "mt inp (Star a) (cs, s) =
     concat (map (\<lambda>st'. if length (snd st') < length s then mt inp (Star a) st' else [])
                 (mt inp a (cs, s))) @ [(cs, s)]"
| "mt inp (Lazy a) (cs, s) =
     (cs, s) # concat (map (\<lambda>st'. if length (snd st') < length s then mt inp (Lazy a) st' else [])
                           (mt inp a (cs, s)))"
| "mt inp (Opt a) (cs, s) =
     filter (\<lambda>st'. length (snd st') < length s) (mt inp a (cs, s)) @ [(cs, s)]"
| "mt inp (Grp n a) (cs, s) =
     map (\<lambda>st'. ((fst st')(n \<mapsto> take (length s - length (snd st')) s), snd st'))
         (mt inp a (cs, s))"
| "mt inp Bol (cs, s) = (if length s = length inp then [(cs, s)] else [])"
| "mt inp Eol (cs, s) = (if s = [] then [(cs, s)] else [])"
| "mt inp WordB (cs, s) = (if atBoundary inp s then [(cs, s)] else [])"
  by pat_completeness auto
termination
  by (relation "inv_image (less_than <*lex*> less_than)
                  (\<lambda>(inp, r, st). (size r, length (snd st)))") auto

text \<open>Building blocks: a character, a literal string, \<open>r+\<close>, a sequence.\<close>

definition ch :: "char \<Rightarrow> rx" where
  "ch c = Atom (\<lambda>x. x = c)"

fun lit :: "string \<Rightarrow> rx" where
  "lit [] = Eps"
| "lit (c # cs) = Seq (ch c) (lit cs)"

definition plus :: "rx \<Rightarrow> rx" where
  "plus r = Seq r (Star r)"

fun seqs :: "rx list \<Rightarrow> rx" where
  "seqs [] = Eps"
| "seqs [r] = r"
| "seqs (r # rs) = Seq r (seqs rs)"

text \<open>
  The result of \<open>RegExp.exec\<close> and of \<open>String.match\<close> without the \<open>g\<close> flag:
  where the match starts, the text matched, and the groups.
\<close>

record rmatch =
  index :: nat
  matched :: string
  groups :: caps

fun searchFrom :: "string \<Rightarrow> rx \<Rightarrow> string \<Rightarrow> rmatch option" where
  "searchFrom inp r s =
     (case mt inp r (Map.empty, s) of
        (cs, s') # _ \<Rightarrow>
          Some \<lparr>index = length inp - length s,
                matched = take (length s - length s') s,
                groups = cs\<rparr>
      | [] \<Rightarrow> (case s of [] \<Rightarrow> None | _ # t \<Rightarrow> searchFrom inp r t))"

definition execRx :: "rx \<Rightarrow> string \<Rightarrow> rmatch option" where
  "execRx r inp = searchFrom inp r inp"

text \<open>A group that takes part in every match of its pattern.\<close>

definition grp :: "rmatch \<Rightarrow> nat \<Rightarrow> string" where
  "grp m k = (case groups m k of Some t \<Rightarrow> t | None \<Rightarrow> [])"

text \<open>\<open>String.match\<close> with the \<open>g\<close> flag: the texts of the successive matches.\<close>

function matchAllFrom :: "string \<Rightarrow> rx \<Rightarrow> string \<Rightarrow> string list" where
  "matchAllFrom inp r s =
     (case searchFrom inp r s of
        None \<Rightarrow> []
      | Some m \<Rightarrow>
          (let next = index m + length (matched m) + (if matched m = [] then 1 else 0);
               s' = drop next inp
           in matched m # (if length s' < length s then matchAllFrom inp r s' else [])))"
  by pat_completeness auto
termination
  by (relation "measure (\<lambda>(inp, r, s). length s)") auto

definition matchAll :: "rx \<Rightarrow> string \<Rightarrow> string list" where
  "matchAll r inp = matchAllFrom inp r inp"

text \<open>\<open>String.replace\<close> with a pattern without the \<open>g\<close> flag.\<close>

definition replaceFirst :: "rx \<Rightarrow> string \<Rightarrow> string \<Rightarrow> string" where
  "replaceFirst r new s =
     (case execRx r s of
        None \<Rightarrow> s
      | Some m \<Rightarrow> take (index m) s @ new @ drop (index m + length (matched m)) s)"

section \<open>The data model\<close>

text \<open>
  \<open>FieldInfo\<close>, \<open>EnumValueInfo\<close>, \<open>EnumInfo\<close> and \<open>MessageInfo\<close> of the hover
  provider. An optional member is an \<open>option\<close>; \<open>rawSource\<close> starts as the empty
  string.
\<close>

record FieldInfo =
  f_name :: string
  f_type :: string
  f_number :: jsnumber
  f_label :: "string option"
  f_comment :: "string option"

record EnumValueInfo =
  v_name :: string
  v_number :: jsnumber
  v_comment :: "string option"

record EnumInfo =
  e_name :: string
  e_values :: "EnumValueInfo list"
  e_comment :: "string option"
  e_rawSource :: string

datatype MessageInfo =
  MessageInfo (m_name: string) (m_fields: "FieldInfo list")
    (m_nestedMessages: "MessageInfo list") (m_nestedEnums: "EnumInfo list")
    (m_comment: "string option") (m_rawSource: string)

text \<open>
  What a function of the source can throw. \<open>new RegExp\<close> throws on a source text that
  is not a pattern; a file read throws when the file cannot be read; a method called on
  \<open>undefined\<close> throws a \<open>TypeError\<close>; a call for which the call stack has no room
  throws a \<open>RangeError\<close>.
\<close>

datatype error = RegExpSyntaxError | ReadFailure | TypeError | RangeError | Uninterpreted

section \<open>The patterns of the hover provider\<close>

text \<open>
  The sources hold the class \<open>Proto3HoverProvider\<close> twice. The hover provider is taken
  from the copy that parses nested messages and enums and reads the package of each
  file. The two parsers of the other copy (\<open>src/proto3Hover.ts\<close>), which has no nested
  messages and another pattern for the line of an enum value, follow in a section of
  their own; their names end in \<open>_src\<close>.
\<close>

text \<open>
  A name is spliced into the source text of a pattern as it is. A name of word
  characters is the pattern matching that name. A name of word characters and at
  least one opening parenthesis leaves a group unterminated, and \<open>new RegExp\<close>
  throws. The embedding does not interpret any other name.
\<close>

definition nameRx :: "string \<Rightarrow> error + rx" where
  "nameRx name =
     (if list_all isWord name then Inr (lit name)
      else if list_all (\<lambda>c. isWord c \<or> c = CHR ''('') name then Inl RegExpSyntaxError
      else Inl Uninterpreted)"

abbreviation ws :: rx where "ws \<equiv> Atom isSpace"
abbreviation wd :: rx where "wd \<equiv> Atom isWord"
abbreviation nl :: char where "nl \<equiv> CHR 0x0A"

text \<open>\<open>(?:\/\/.*\n|\/\*[\s\S]*?\*\/\s*)*\<close>\<close>

definition commentRun :: rx where
  "commentRun =
     Star (Alt (seqs [lit ''//'', Star (Atom isDot), ch nl])
               (seqs [lit ''/*'', Lazy (Atom isAny), lit ''*/'', Star ws]))"

text \<open>\<open>((?:\/\/.*\n|\/\*[\s\S]*?\*\/\s*)*)\s*message\s+NAME\s*\{\<close>\<close>

definition messageStartRx :: "rx \<Rightarrow> rx" where
  "messageStartRx nm =
     seqs [Grp 1 commentRun, Star ws, lit ''message'', plus ws, nm, Star ws, ch CHR ''{'']"

text \<open>\<open>((?:\/\/.*\n|\/\*[\s\S]*?\*\/\s*)*)\s*enum\s+NAME\s*\{([\s\S]*?)\n\s*\}\<close>\<close>

definition enumRx :: "rx \<Rightarrow> rx" where
  "enumRx nm =
     seqs [Grp 1 commentRun, Star ws, lit ''enum'', plus ws, nm, Star ws, ch CHR ''{'',
           Grp 2 (Lazy (Atom isAny)), ch nl, Star ws, ch CHR ''}'']"

text \<open>\<open>(\/\/.*|\/\*[\s\S]*?\*\/)\<close>, used with the \<open>g\<close> flag.\<close>

definition commentTokenRx :: rx where
  "commentTokenRx =
     Grp 1 (Alt (Seq (lit ''//'') (Star (Atom isDot)))
                (seqs [lit ''/*'', Lazy (Atom isAny), lit ''*/'']))"

text \<open>
  \<open>c.replace(/^\/\/\s?/, '').replace(/^\/\*\s?/, '').replace(/\s?\*\/$/, '').trim()\<close>
\<close>

definition cleanComment :: "string \<Rightarrow> string" where
  "cleanComment c =
     trim (replaceFirst (seqs [Opt ws, lit ''*/'', Eol]) []
            (replaceFirst (seqs [Bol, lit ''/*'', Opt ws]) []
              (replaceFirst (seqs [Bol, lit ''//'', Opt ws]) [] c)))"

definition leadingComment :: "string \<Rightarrow> string option" where
  "leadingComment commentPart =
     (case matchAll commentTokenRx commentPart of
        [] \<Rightarrow> None
      | c # cs \<Rightarrow> Some (joinWith [nl] (map cleanComment (c # cs))))"

text \<open>\<open>^message\s+(\w+)\s*\{\<close> and \<open>^enum\s+(\w+)\s*\{\<close>\<close>

definition nestedMessageRx :: rx where
  "nestedMessageRx = seqs [Bol, lit ''message'', plus ws, Grp 1 (plus wd), Star ws, ch CHR ''{'']"

definition nestedEnumRx :: rx where
  "nestedEnumRx = seqs [Bol, lit ''enum'', plus ws, Grp 1 (plus wd), Star ws, ch CHR ''{'']"

text \<open>
  The field line:
  \<open>^\s*(optional|required|repeated)?\s*(?:(map)\s*<\s*([^<>]+)\s*,\s*([^<>]+)\s*>|(\w+(?:\.\w+)*))\s+(\w+)\s*=\s*(\d+)(?:\s*\[([\s\w=,]+)\])?\s*;(?:\s*\/\/\s*(.*))?$\<close>
\<close>

definition notAngle :: "char \<Rightarrow> bool" where
  "notAngle c = (c \<noteq> CHR ''<'' \<and> c \<noteq> CHR ''>'')"

definition isOptionChar :: "char \<Rightarrow> bool" where
  "isOptionChar c = (isSpace c \<or> isWord c \<or> c = CHR ''='' \<or> c = CHR '','')"

definition fieldRx :: rx where
  "fieldRx =
     seqs [Bol, Star ws,
           Opt (Grp 1 (Alt (lit ''optional'') (Alt (lit ''required'') (lit ''repeated'')))),
           Star ws,
           Alt (seqs [Grp 2 (lit ''map''), Star ws, ch CHR ''<'', Star ws,
                      Grp 3 (plus (Atom notAngle)), Star ws, ch CHR '','', Star ws,
                      Grp 4 (plus (Atom notAngle)), Star ws, ch CHR ''>''])
               (Grp 5 (Seq (plus wd) (Star (Seq (ch CHR ''.'') (plus wd))))),
           plus ws, Grp 6 (plus wd), Star ws, ch CHR ''='', Star ws,
           Grp 7 (plus (Atom isDigit)),
           Opt (seqs [Star ws, ch CHR ''['', Grp 8 (plus (Atom isOptionChar)), ch CHR '']'']),
           Star ws, ch CHR '';'',
           Opt (seqs [Star ws, lit ''//'', Star ws, Grp 9 (Star (Atom isDot))]),
           Eol]"

text \<open>The enum value line: \<open>^\s*(\w+)\s*=\s*(\d+)\s*;(?:\s*\/\/\s*(.*))?$\<close>\<close>

definition valueRx :: rx where
  "valueRx =
     seqs [Bol, Star ws, Grp 1 (plus wd), Star ws, ch CHR ''='', Star ws,
           Grp 2 (plus (Atom isDigit)), Star ws, ch CHR '';'',
           Opt (seqs [Star ws, lit ''//'', Star ws, Grp 3 (Star (Atom isDot))]),
           Eol]"

text \<open>A JavaScript string is truthy when it is defined and not empty.\<close>

definition truthy :: "string option \<Rightarrow> bool" where
  "truthy v = (case v of None \<Rightarrow> False | Some t \<Rightarrow> t \<noteq> [])"

text \<open>\<open>allComments\<close> and the \<open>comment\<close> member made from it.\<close>

definition allComments :: "string list \<Rightarrow> string option \<Rightarrow> string list" where
  "allComments pendingComments inlineComment =
     pendingComments @
       (case inlineComment of
          None \<Rightarrow> []
        | Some c \<Rightarrow> if c \<noteq> [] then [trim c] else [])"

definition commentOf :: "string list \<Rightarrow> string option" where
  "commentOf cs = (if cs \<noteq> [] then Some (joinWith [nl] cs) else None)"

section \<open>parseEnum\<close>

text \<open>One round of the loop over the lines of the enum body: the values and the pending comments.\<close>

definition enumStep :: "string \<Rightarrow> EnumValueInfo list \<times> string list \<Rightarrow> EnumValueInfo list \<times> string list" where
  "enumStep line st =
     (let values = fst st; pendingComments = snd st; trimmedLine = trim line in
      if startsWith trimmedLine ''//'' then
        (let comment = trim (drop 2 trimmedLine) in
         (values, if comment \<noteq> [] then pendingComments @ [comment] else pendingComments))
      else if trimmedLine = [] \<or> trimmedLine = ''{'' \<or> trimmedLine = ''}'' then (values, [])
      else
        (case execRx valueRx trimmedLine of
           Some valueMatch \<Rightarrow>
             (values @ [\<lparr>v_name = grp valueMatch 1,
                          v_number = parseInt (grp valueMatch 2),
                          v_comment = commentOf (allComments pendingComments (groups valueMatch 3))\<rparr>],
              [])
         | None \<Rightarrow> (values, [])))"

definition parseEnum :: "string \<Rightarrow> string \<Rightarrow> error + EnumInfo" where
  "parseEnum enumName content =
     (case nameRx enumName of
        Inl e \<Rightarrow> Inl e
      | Inr nm \<Rightarrow>
          (case execRx (enumRx nm) content of
             None \<Rightarrow> Inr \<lparr>e_name = enumName, e_values = [], e_comment = None, e_rawSource = []\<rparr>
           | Some m \<Rightarrow>
               Inr \<lparr>e_name = enumName,
                     e_values = fst (fold enumStep (splitOn nl (grp m 2)) ([], [])),
                     e_comment = leadingComment (grp m 1),
                     e_rawSource = matched m\<rparr>))"

section \<open>parseMessage\<close>

text \<open>
  The loop that finds the closing brace: from \<open>i\<close> on, with \<open>braceCount\<close> braces open;
  the index of the brace that brings the count to zero, or \<open>-1\<close>.
\<close>

function braceScan :: "string \<Rightarrow> int \<Rightarrow> int \<Rightarrow> int" where
  "braceScan content i braceCount =
     (if i < int (length content) then
        (if charAt content i = Some CHR ''{'' then braceScan content (i + 1) (braceCount + 1)
         else if charAt content i = Some CHR ''}'' then
           (if braceCount - 1 = 0 then i else braceScan content (i + 1) (braceCount - 1))
         else braceScan content (i + 1) braceCount)
      else -1)"
  by pat_completeness auto
termination
  by (relation "measure (\<lambda>(content, i, n). nat (int (length content) - i))") auto

declare braceScan.simps [simp del]

text \<open>The state of the loop over the lines of the message body.\<close>

record bodyState =
  msgFields :: "FieldInfo list"
  msgNestedMessages :: "MessageInfo list"
  msgNestedEnums :: "EnumInfo list"
  pendingComments :: "string list"
  braceDepth :: int

definition fieldOf :: "rmatch \<Rightarrow> string list \<Rightarrow> FieldInfo" where
  "fieldOf fieldMatch pending =
     \<lparr>f_name = grp fieldMatch 6,
      f_type = (if truthy (groups fieldMatch 2) \<and> truthy (groups fieldMatch 3)
                   \<and> truthy (groups fieldMatch 4)
                then ''map<'' @ grp fieldMatch 3 @ '', '' @ grp fieldMatch 4 @ ''>''
                else grp fieldMatch 5),
      f_number = parseInt (grp fieldMatch 7),
      f_label = (if truthy (groups fieldMatch 1) then groups fieldMatch 1 else None),
      f_comment = commentOf (allComments pending (groups fieldMatch 9))\<rparr>"

definition bodyStep ::
  "(string \<Rightarrow> string \<Rightarrow> error + MessageInfo) \<Rightarrow> (string \<Rightarrow> string \<Rightarrow> error + EnumInfo)
     \<Rightarrow> string \<Rightarrow> string \<Rightarrow> bodyState \<Rightarrow> error + bodyState" where
  "bodyStep pm pe bodyContent line st =
     (let trimmedLine = trim line;
          depth = braceDepth st + (int (countChar CHR ''{'' line) - int (countChar CHR ''}'' line))
      in
      if startsWith trimmedLine ''//'' \<and> braceDepth st = 0 then
        (let comment = trim (drop 2 trimmedLine) in
         Inr (st\<lparr>pendingComments :=
                     (if comment \<noteq> [] then pendingComments st @ [comment]
                      else pendingComments st),
                  braceDepth := depth\<rparr>))
      else if trimmedLine = [] \<or> trimmedLine = ''{'' \<or> trimmedLine = ''}'' then
        Inr (st\<lparr>pendingComments := (if braceDepth st = 0 then [] else pendingComments st),
                 braceDepth := depth\<rparr>)
      else if braceDepth st = 0 then
        (case execRx nestedMessageRx trimmedLine of
           Some nestedMessageMatch \<Rightarrow>
             (case pm (grp nestedMessageMatch 1) bodyContent of
                Inl e \<Rightarrow> Inl e
              | Inr nestedInfo \<Rightarrow>
                  Inr (st\<lparr>msgNestedMessages := msgNestedMessages st @ [nestedInfo],
                           pendingComments := [], braceDepth := depth\<rparr>))
         | None \<Rightarrow>
             (case execRx nestedEnumRx trimmedLine of
                Some nestedEnumMatch \<Rightarrow>
                  (case pe (grp nestedEnumMatch 1) bodyContent of
                     Inl e \<Rightarrow> Inl e
                   | Inr nestedInfo \<Rightarrow>
                       Inr (st\<lparr>msgNestedEnums := msgNestedEnums st @ [nestedInfo],
                                pendingComments := [], braceDepth := depth\<rparr>))
              | None \<Rightarrow>
                  (case execRx fieldRx trimmedLine of
                     Some fieldMatch \<Rightarrow>
                       Inr (st\<lparr>msgFields := msgFields st @ [fieldOf fieldMatch (pendingComments st)],
                                pendingComments := [], braceDepth := depth\<rparr>)
                   | None \<Rightarrow> Inr (st\<lparr>pendingComments := [], braceDepth := depth\<rparr>))))
      else Inr (st\<lparr>braceDepth := depth\<rparr>))"

text \<open>
  The loop over the lines. \<open>pm\<close> and \<open>pe\<close> are the parsers called on a nested
  \<open>message\<close> or \<open>enum\<close> line, always on the whole body.
\<close>

fun parseBody ::
  "(string \<Rightarrow> string \<Rightarrow> error + MessageInfo) \<Rightarrow> (string \<Rightarrow> string \<Rightarrow> error + EnumInfo)
     \<Rightarrow> string \<Rightarrow> string list \<Rightarrow> bodyState \<Rightarrow> error + bodyState" where
  "parseBody pm pe bodyContent [] st = Inr st"
| "parseBody pm pe bodyContent (line # lines) st =
     (case bodyStep pm pe bodyContent line st of
        Inl e \<Rightarrow> Inl e
      | Inr st' \<Rightarrow> parseBody pm pe bodyContent lines st')"

lemma parseBody_cong [fundef_cong]:
  assumes "\<And>nestedName. pm nestedName bodyContent = pm' nestedName bodyContent"
    and "pe = pe'" "bodyContent = bodyContent'" "lines = lines'" "st = st'"
  shows "parseBody pm pe bodyContent lines st = parseBody pm' pe' bodyContent' lines' st'"
proof -
  have step: "bodyStep pm pe bodyContent line s = bodyStep pm' pe bodyContent line s" for line s
    unfolding bodyStep_def assms(1) by (rule refl)
  have "parseBody pm pe bodyContent lines st = parseBody pm' pe bodyContent lines st"
    by (induction lines arbitrary: st) (simp_all add: step cong: sum.case_cong)
  then show ?thesis
    using assms(2-5) by simp
qed

definition initialBody :: bodyState where
  "initialBody = \<lparr>msgFields = [], msgNestedMessages = [], msgNestedEnums = [],
                  pendingComments = [], braceDepth = 0\<rparr>"

definition emptyMessage :: "string \<Rightarrow> MessageInfo" where
  "emptyMessage messageName = MessageInfo messageName [] [] [] None []"

lemma braceScan_range:
  "braceScan content i n = e \<Longrightarrow> e \<noteq> -1 \<Longrightarrow> i \<le> e \<and> 0 \<le> e \<and> e < int (length content)"
proof (induction content i n rule: braceScan.induct)
  case (1 content i n)
  show ?case
    using "1.prems" "1.IH"
    by (subst (asm) braceScan.simps) (auto simp: charAt_def split: if_splits)
qed

lemma braceScan_after:
  assumes "braceScan content i 0 = e" "e \<noteq> -1"
  shows "i < e"
proof -
  from assms have "i < int (length content)"
    by (subst (asm) braceScan.simps) (auto split: if_splits)
  then have "braceScan content (i + 1) 1 = e \<or> braceScan content (i + 1) (-1) = e
      \<or> braceScan content (i + 1) 0 = e"
    using assms by (subst (asm) braceScan.simps) (auto split: if_splits)
  then show ?thesis
    using braceScan_range [of content "i + 1" _ e] assms(2) by fastforce
qed

lemma substring_shorter:
  assumes "a < e" "0 \<le> e" "e < int (length s)"
  shows "length (substring s (a + 1) e) < length s"
  using assms by (auto simp: substring_def Let_def min_def max_def)

function parseMessage :: "string \<Rightarrow> string \<Rightarrow> error + MessageInfo" where
  "parseMessage messageName content =
     (case nameRx messageName of
        Inl e \<Rightarrow> Inl e
      | Inr nm \<Rightarrow>
          (case execRx (messageStartRx nm) content of
             None \<Rightarrow> Inr (emptyMessage messageName)
           | Some startMatch \<Rightarrow>
               (let startIndex = int (index startMatch);
                    fullStartMatch = matched startMatch;
                    openBraceIndex = startIndex + lastIndexOfChar fullStartMatch CHR ''{'';
                    endIndex = braceScan content openBraceIndex 0
                in
                if endIndex \<noteq> -1 then
                  (let bodyContent = substring content (openBraceIndex + 1) endIndex in
                   case parseBody parseMessage parseEnum bodyContent
                          (splitOn nl bodyContent) initialBody of
                     Inl e \<Rightarrow> Inl e
                   | Inr st \<Rightarrow>
                       Inr (MessageInfo messageName (msgFields st) (msgNestedMessages st)
                              (msgNestedEnums st)
                              (leadingComment (grp startMatch 1))
                              (substring content startIndex (endIndex + 1))))
                else Inr (emptyMessage messageName))))"
  by pat_completeness auto
termination
  apply (relation "measure (\<lambda>(messageName, content). length content)")
   apply simp
  apply (simp add: Let_def)
  apply (rule substring_shorter)
    apply (rule braceScan_after [OF refl], assumption)
   apply (frule braceScan_range [OF refl], simp)
  apply (frule braceScan_range [OF refl], simp)
  done

declare parseMessage.simps [simp del]

section \<open>The call stack\<close>

text \<open>
  The loop of \<open>parseMessage\<close> calls \<open>parseMessage\<close> for a nested message while its own
  activation is on the call stack, and the engine throws a \<open>RangeError\<close> at a call for
  which the stack has no room. \<open>parseMessageWithin frames\<close> is \<open>parseMessage\<close> called
  with room for \<open>frames\<close> activations of \<open>parseMessage\<close> on the stack, one above the
  other, each with the calls it makes to functions that call no further
  \<open>parseMessage\<close>. It charges one activation for every level of nesting. That is what
  the stack holds when the nested message is met before the caller has awaited
  anything; a call made after an \<open>await\<close> starts from a shorter stack, so the engine
  never needs more room than is charged here.
\<close>

fun parseMessageWithin :: "nat \<Rightarrow> string \<Rightarrow> string \<Rightarrow> error + MessageInfo" where
  "parseMessageWithin 0 messageName content = Inl RangeError"
| "parseMessageWithin (Suc frames) messageName content =
     (case nameRx messageName of
        Inl e \<Rightarrow> Inl e
      | Inr nm \<Rightarrow>
          (case execRx (messageStartRx nm) content of
             None \<Rightarrow> Inr (emptyMessage messageName)
           | Some startMatch \<Rightarrow>
               (let startIndex = int (index startMatch);
                    fullStartMatch = matched startMatch;
                    openBraceIndex = startIndex + lastIndexOfChar fullStartMatch CHR ''{'';
                    endIndex = braceScan content openBraceIndex 0
                in
                if endIndex \<noteq> -1 then
                  (let bodyContent = substring content (openBraceIndex + 1) endIndex in
                   case parseBody (parseMessageWithin frames) parseEnum bodyContent
                          (splitOn nl bodyContent) initialBody of
                     Inl e \<Rightarrow> Inl e
                   | Inr st \<Rightarrow>
                       Inr (MessageInfo messageName (msgFields st) (msgNestedMessages st)
                              (msgNestedEnums st)
                              (leadingComment (grp startMatch 1))
                              (substring content startIndex (endIndex + 1))))
                else Inr (emptyMessage messageName))))"

declare parseMessageWithin.simps [simp del]

section \<open>The parsers of the copy in \<open>src/proto3Hover.ts\<close>\<close>

text \<open>The enum value line: \<open>^\s*(\w+)\s*=\s*(\d+)(?:\s*;\s*\/\/\s*(.*))?$\<close>\<close>

definition valueRx_src :: rx where
  "valueRx_src =
     seqs [Bol, Star ws, Grp 1 (plus wd), Star ws, ch CHR ''='', Star ws,
           Grp 2 (plus (Atom isDigit)),
           Opt (seqs [Star ws, ch CHR '';'', Star ws, lit ''//'', Star ws,
                      Grp 3 (Star (Atom isDot))]),
           Eol]"

definition enumStep_src :: "string \<Rightarrow> EnumValueInfo list \<times> string list \<Rightarrow> EnumValueInfo list \<times> string list" where
  "enumStep_src line st =
     (let values = fst st; pendingComments = snd st; trimmedLine = trim line in
      if startsWith trimmedLine ''//'' then
        (let comment = trim (drop 2 trimmedLine) in
         (values, if comment \<noteq> [] then pendingComments @ [comment] else pendingComments))
      else if trimmedLine = [] \<or> trimmedLine = ''{'' \<or> trimmedLine = ''}'' then (values, [])
      else
        (case execRx valueRx_src trimmedLine of
           Some valueMatch \<Rightarrow>
             (values @ [\<lparr>v_name = grp valueMatch 1,
                          v_number = parseInt (grp valueMatch 2),
                          v_comment = commentOf (allComments pendingComments (groups valueMatch 3))\<rparr>],
              [])
         | None \<Rightarrow> (values, [])))"

definition parseEnum_src :: "string \<Rightarrow> string \<Rightarrow> error + EnumInfo" where
  "parseEnum_src enumName content =
     (case nameRx enumName of
        Inl e \<Rightarrow> Inl e
      | Inr nm \<Rightarrow>
          (case execRx (enumRx nm) content of
             None \<Rightarrow> Inr \<lparr>e_name = enumName, e_values = [], e_comment = None, e_rawSource = []\<rparr>
           | Some m \<Rightarrow>
               Inr \<lparr>e_name = enumName,
                     e_values = fst (fold enumStep_src (splitOn nl (grp m 2)) ([], [])),
                     e_comment = leadingComment (grp m 1),
                     e_rawSource = matched m\<rparr>))"

text \<open>
  One round of the loop over the lines of the message body. There is no branch for a
  nested \<open>message\<close> or \<open>enum\<close> line, and nothing that throws.
\<close>

definition bodyStep_src :: "string \<Rightarrow> bodyState \<Rightarrow> bodyState" where
  "bodyStep_src line st =
     (let trimmedLine = trim line;
          depth = braceDepth st + (int (countChar CHR ''{'' line) - int (countChar CHR ''}'' line))
      in
      if startsWith trimmedLine ''//'' \<and> braceDepth st = 0 then
        (let comment = trim (drop 2 trimmedLine) in
         st\<lparr>pendingComments :=
               (if comment \<noteq> [] then pendingComments st @ [comment]
                else pendingComments st),
            braceDepth := depth\<rparr>)
      else if trimmedLine = [] \<or> trimmedLine = ''{'' \<or> trimmedLine = ''}'' then
        st\<lparr>pendingComments := (if braceDepth st = 0 then [] else pendingComments st),
           braceDepth := depth\<rparr>
      else if braceDepth st = 0 then
        (case execRx fieldRx trimmedLine of
           Some fieldMatch \<Rightarrow>
             st\<lparr>msgFields := msgFields st @ [fieldOf fieldMatch (pendingComments st)],
                pendingComments := [], braceDepth := depth\<rparr>
         | None \<Rightarrow> st\<lparr>pendingComments := [], braceDepth := depth\<rparr>)
      else st\<lparr>braceDepth := depth\<rparr>)"

definition parseMessage_src :: "string \<Rightarrow> string \<Rightarrow> error + MessageInfo" where
  "parseMessage_src messageName content =
     (case nameRx messageName of
        Inl e \<Rightarrow> Inl e
      | Inr nm \<Rightarrow>
          (case execRx (messageStartRx nm) content of
             None \<Rightarrow> Inr (emptyMessage messageName)
           | Some startMatch \<Rightarrow>
               (let startIndex = int (index startMatch);
                    fullStartMatch = matched startMatch;
                    openBraceIndex = startIndex + lastIndexOfChar fullStartMatch CHR ''{'';
                    endIndex = braceScan content openBraceIndex 0
                in
                if endIndex \<noteq> -1 then
                  (let bodyContent = substring content (openBraceIndex + 1) endIndex;
                       st = fold bodyStep_src (splitOn nl bodyContent) initialBody
                   in Inr (MessageInfo messageName (msgFields st) [] []
                             (leadingComment (grp startMatch 1))
                             (substring content startIndex (endIndex + 1))))
                else Inr (emptyMessage messageName))))"

section \<open>The candidate files\<close>

text \<open>
  A file system maps a path to the text of the file; \<open>None\<close> where \<open>readFileSync\<close>
  throws. Both providers build the same list of candidates: the path of the document,
  then the files found for its import statements (\<open>imported\<close>, the answer of the glob
  search to \<open>getImportedFilePathsOnDocument\<close>), then, for each configured proto path in
  turn, the \<open>*.proto\<close> files found below it (\<open>scanned\<close>). \<open>Array.from(new Set(files))\<close>
  keeps the first occurrence of each path, in order.
\<close>

type_synonym path = string
type_synonym fileSystem = "path \<Rightarrow> string option"

fun uniqueFrom :: "path list \<Rightarrow> path list \<Rightarrow> path list" where
  "uniqueFrom seen [] = []"
| "uniqueFrom seen (f # fs) =
     (if f \<in> set seen then uniqueFrom seen fs else f # uniqueFrom (f # seen) fs)"

definition candidateFiles :: "path \<Rightarrow> path list \<Rightarrow> path list list \<Rightarrow> path list" where
  "candidateFiles document imported scanned =
     uniqueFrom [] ((document # imported) @ concat scanned)"

definition firstOf :: "string list \<Rightarrow> string" where
  "firstOf parts = (case parts of [] \<Rightarrow> [] | p # _ \<Rightarrow> p)"

section \<open>getMessageOrEnumInfo\<close>

datatype info = MessageResult MessageInfo | EnumResult EnumInfo

text \<open>\<open>package\s+([^;]+);\<close>\<close>

definition packageRx :: rx where
  "packageRx = seqs [lit ''package'', plus ws, Grp 1 (plus (Atom (\<lambda>c. c \<noteq> CHR '';''))), ch CHR '';'']"

text \<open>
  \<open>\bmessage\s+(\w+)\s*{\<close> and \<open>\benum\s+(\w+)\s*{\<close> (with the \<open>g\<close> flag), and the same
  two without the word boundary, run on each text matched.
\<close>

definition keywordOpenRx :: "string \<Rightarrow> rx" where
  "keywordOpenRx kw = seqs [lit kw, plus ws, Grp 1 (plus wd), Star ws, ch CHR ''{'']"

definition boundedOpenRx :: "string \<Rightarrow> rx" where
  "boundedOpenRx kw = Seq WordB (keywordOpenRx kw)"

text \<open>
  The walk along the remaining parts of a dotted name: into the nested message of that
  name, else into the nested enum of that name; the copy carries the dotted name.
\<close>

fun rename :: "MessageInfo \<Rightarrow> string \<Rightarrow> MessageInfo" where
  "rename (MessageInfo n fs ms es c r) n' = MessageInfo n' fs ms es c r"

definition infoName :: "info \<Rightarrow> string" where
  "infoName i = (case i of MessageResult m \<Rightarrow> m_name m | EnumResult e \<Rightarrow> e_name e)"

fun descend :: "info \<Rightarrow> string list \<Rightarrow> info option" where
  "descend i [] = Some i"
| "descend (EnumResult e) (nextName # rest) = None"
| "descend (MessageResult m) (nextName # rest) =
     (case find (\<lambda>n. m_name n = nextName) (m_nestedMessages m) of
        Some nestedMsg \<Rightarrow>
          descend (MessageResult (rename nestedMsg (m_name m @ ''.'' @ m_name nestedMsg))) rest
      | None \<Rightarrow>
          (case find (\<lambda>e. e_name e = nextName) (m_nestedEnums m) of
             Some nestedEnum \<Rightarrow>
               descend (EnumResult (nestedEnum\<lparr>e_name := m_name m @ ''.'' @ e_name nestedEnum\<rparr>)) rest
           | None \<Rightarrow> None))"

definition qualifiedName :: "string \<Rightarrow> string \<Rightarrow> string" where
  "qualifiedName packageName n = (if packageName \<noteq> [] then packageName @ ''.'' @ n else n)"

text \<open>The body of the loop over the message matches: \<open>Some\<close> is the value returned.\<close>

definition tryMessage ::
  "string \<Rightarrow> string list \<Rightarrow> string \<Rightarrow> string \<Rightarrow> string \<Rightarrow> error + info option" where
  "tryMessage targetName matchParts packageName content matchText =
     (case execRx (keywordOpenRx ''message'') matchText of
        None \<Rightarrow> Inr None
      | Some name \<Rightarrow>
          (let messageName = grp name 1;
               fullName = qualifiedName packageName messageName;
               matchRoot = firstOf matchParts
           in
           if messageName = [] then Inr None
           else if messageName = matchRoot \<or> fullName = targetName \<or> fullName = matchRoot then
             (case parseMessage messageName content of
                Inl e \<Rightarrow> Inl e
              | Inr i \<Rightarrow>
                  if fullName = targetName then Inr (Some (MessageResult i))
                  else if length matchParts > 1 \<and> messageName = matchRoot then
                    Inr (descend (MessageResult i) (tl matchParts))
                  else if messageName = matchRoot \<and> length matchParts = 1 then
                    Inr (Some (MessageResult i))
                  else Inr None)
           else Inr None))"

definition tryEnum ::
  "string \<Rightarrow> string list \<Rightarrow> string \<Rightarrow> string \<Rightarrow> string \<Rightarrow> error + info option" where
  "tryEnum targetName matchParts packageName content matchText =
     (case execRx (keywordOpenRx ''enum'') matchText of
        None \<Rightarrow> Inr None
      | Some name \<Rightarrow>
          (let enumName = grp name 1;
               fullName = qualifiedName packageName enumName;
               matchRoot = firstOf matchParts
           in
           if enumName = [] then Inr None
           else if (enumName = matchRoot \<or> fullName = targetName \<or> fullName = matchRoot)
                   \<and> length matchParts = 1 then
             (case parseEnum enumName content of
                Inl e \<Rightarrow> Inl e
              | Inr i \<Rightarrow> Inr (Some (EnumResult i)))
           else Inr None))"

text \<open>A loop that returns from its first round with a value and throws with the first round that throws.\<close>

fun firstReturn :: "('a \<Rightarrow> error + 'b option) \<Rightarrow> 'a list \<Rightarrow> error + 'b option" where
  "firstReturn body [] = Inr None"
| "firstReturn body (x # xs) =
     (case body x of
        Inl e \<Rightarrow> Inl e
      | Inr (Some r) \<Rightarrow> Inr (Some r)
      | Inr None \<Rightarrow> firstReturn body xs)"

text \<open>The \<open>try\<close> block run on one candidate file.\<close>

definition lookInFile :: "fileSystem \<Rightarrow> string \<Rightarrow> path \<Rightarrow> error + info option" where
  "lookInFile fs targetName file =
     (case fs file of
        None \<Rightarrow> Inl ReadFailure
      | Some content \<Rightarrow>
          (let parts = splitOn CHR ''.'' targetName;
               packageName = (case execRx packageRx content of Some m \<Rightarrow> grp m 1 | None \<Rightarrow> []);
               matchParts =
                 (if packageName \<noteq> [] \<and> startsWith targetName (packageName @ ''.'')
                  then splitOn CHR ''.'' (drop (length packageName + 1) targetName)
                  else parts);
               messageMatch = matchAll (boundedOpenRx ''message'') content;
               enumMatch = matchAll (boundedOpenRx ''enum'') content
           in
           case firstReturn (tryMessage targetName matchParts packageName content) messageMatch of
             Inl e \<Rightarrow> Inl e
           | Inr (Some r) \<Rightarrow> Inr (Some r)
           | Inr None \<Rightarrow> firstReturn (tryEnum targetName matchParts packageName content) enumMatch))"

text \<open>The loop over the candidates: an exception in the \<open>try\<close> block moves on to the next file.\<close>

fun infoFromFiles :: "fileSystem \<Rightarrow> string \<Rightarrow> path list \<Rightarrow> info option" where
  "infoFromFiles fs targetName [] = None"
| "infoFromFiles fs targetName (file # files) =
     (case lookInFile fs targetName file of
        Inr (Some r) \<Rightarrow> Some r
      | _ \<Rightarrow> infoFromFiles fs targetName files)"

definition getMessageOrEnumInfo ::
  "fileSystem \<Rightarrow> path \<Rightarrow> path list \<Rightarrow> path list list \<Rightarrow> string \<Rightarrow> info option" where
  "getMessageOrEnumInfo fs document imported scanned targetName =
     infoFromFiles fs targetName (candidateFiles document imported scanned)"

section \<open>The enum value under the cursor\<close>

text \<open>
  \<open>getContainingEnum\<close>: the loop over the lines up to the line of the cursor. Reading a
  line beyond the last one gives \<open>undefined\<close>, and \<open>trim\<close> on it throws.
\<close>

definition containingStep ::
  "string \<Rightarrow> string \<Rightarrow> EnumInfo option \<times> bool \<Rightarrow> error + (EnumInfo option \<times> bool)" where
  "containingStep content lineText st =
     (let currentEnum = fst st; inEnum = snd st; trimmedLine = trim lineText in
      if startsWith trimmedLine ''enum '' then
        (case execRx (keywordOpenRx ''enum'') trimmedLine of
           Some m \<Rightarrow>
             (case parseEnum (grp m 1) content of
                Inl e \<Rightarrow> Inl e
              | Inr i \<Rightarrow> Inr (Some i, True))
         | None \<Rightarrow> Inr st)
      else if inEnum \<and> trimmedLine = ''}'' then Inr (None, False)
      else Inr st)"

fun containingLoop ::
  "string \<Rightarrow> string list \<Rightarrow> nat \<Rightarrow> nat \<Rightarrow> EnumInfo option \<times> bool \<Rightarrow> error + EnumInfo option" where
  "containingLoop content lines i 0 st = Inr (fst st)"
| "containingLoop content lines i (Suc k) st =
     (if i < length lines then
        (case containingStep content (lines ! i) st of
           Inl e \<Rightarrow> Inl e
         | Inr st' \<Rightarrow> containingLoop content lines (Suc i) k st')
      else Inl TypeError)"

definition getContainingEnum :: "string \<Rightarrow> nat \<Rightarrow> error + EnumInfo option" where
  "getContainingEnum content line =
     containingLoop content (splitOn nl content) 0 (Suc line) (None, False)"

text \<open>
  The word under the cursor is made of word characters and dots, and is spliced into
  \<open>^\s*(WORD)\s*=\s*\d+\<close>, a pattern with the \<open>i\<close> flag: a dot matches any character
  of a line, a letter matches in either case.
\<close>

definition upper :: "char \<Rightarrow> char" where
  "upper c = (if c \<in> set ''abcdefghijklmnopqrstuvwxyz'' then char_of (of_char c - (32::nat)) else c)"

fun wordRxI :: "string \<Rightarrow> rx" where
  "wordRxI [] = Eps"
| "wordRxI (c # cs) =
     Seq (if c = CHR ''.'' then Atom isDot else Atom (\<lambda>x. upper x = upper c)) (wordRxI cs)"

definition enumValueRx :: "string \<Rightarrow> rx" where
  "enumValueRx targetWord =
     seqs [Bol, Star ws, Grp 1 (wordRxI targetWord), Star ws, ch CHR ''='', Star ws,
           plus (Atom isDigit)]"

text \<open>
  The branch of \<open>provideHover\<close> for an enum value: the line of the cursor is tested, the
  enum around it is parsed, and the value of that name is looked up in it.
\<close>

definition hoverEnumValue ::
  "string \<Rightarrow> nat \<Rightarrow> string \<Rightarrow> error + (EnumInfo \<times> EnumValueInfo) option" where
  "hoverEnumValue content line targetWord =
     (let lines = splitOn nl content in
      if line < length lines \<and> execRx (enumValueRx targetWord) (lines ! line) \<noteq> None then
        (case getContainingEnum content line of
           Inl e \<Rightarrow> Inl e
         | Inr None \<Rightarrow> Inr None
         | Inr (Some enumInfo) \<Rightarrow>
             (case find (\<lambda>v. v_name v = targetWord) (e_values enumInfo) of
                Some enumValue \<Rightarrow> Inr (Some (enumInfo, enumValue))
              | None \<Rightarrow> Inr None))
      else Inr None)"

section \<open>findEnumOrMessageDefinition\<close>

text \<open>A \<open>Location\<close>: the file, and the range of the name on its line.\<close>

record location =
  l_file :: path
  l_line :: nat
  l_start :: int
  l_end :: int

text \<open>\<open>^\s*package\s+([\w.]+)\s*;\<close>, tried on each line in turn.\<close>

definition packageLineRx :: rx where
  "packageLineRx =
     seqs [Bol, Star ws, lit ''package'', plus ws,
           Grp 1 (plus (Atom (\<lambda>c. isWord c \<or> c = CHR ''.''))), Star ws, ch CHR '';'']"

fun packageOf :: "string list \<Rightarrow> string" where
  "packageOf [] = []"
| "packageOf (line # lines) =
     (case execRx packageLineRx line of
        Some packageMatch \<Rightarrow> grp packageMatch 1
      | None \<Rightarrow> packageOf lines)"

text \<open>\<open>\s*(message|enum)\s*TARGET\s*{\<close> and \<open>\s*(message|enum|service)\s+PART\s*\{\<close>\<close>

definition rootDefinitionRx :: "rx \<Rightarrow> rx" where
  "rootDefinitionRx nm =
     seqs [Star ws, Grp 1 (Alt (lit ''message'') (lit ''enum'')), Star ws, nm, Star ws,
           ch CHR ''{'']"

definition nestedDefinitionRx :: "rx \<Rightarrow> rx" where
  "nestedDefinitionRx nm =
     seqs [Star ws, Grp 1 (Alt (lit ''message'') (Alt (lit ''enum'') (lit ''service''))),
           plus ws, nm, Star ws, ch CHR ''{'']"

definition getTargetLocationInline ::
  "path \<Rightarrow> nat \<Rightarrow> string \<Rightarrow> string \<Rightarrow> rmatch \<Rightarrow> location" where
  "getTargetLocationInline file lineIndex line target definitionRegexMatch =
     (let matchedStr = matched definitionRegexMatch;
          idx = indexOf line matchedStr + indexOf matchedStr target
      in \<lparr>l_file = file, l_line = lineIndex, l_start = idx,
           l_end = idx + int (length target)\<rparr>)"

text \<open>
  \<open>findBlockEnd\<close>: the first line from \<open>startLine\<close> on at which the braces opened since
  \<open>startLine\<close> are closed again, comments removed by
  \<open>line.replace(/\/\/.*$/, '').replace(/\/\*.*\*\//, '')\<close>.
\<close>

definition cleanLine :: "string \<Rightarrow> string" where
  "cleanLine line =
     replaceFirst (seqs [lit ''/*'', Star (Atom isDot), lit ''*/'']) []
       (replaceFirst (seqs [lit ''//'', Star (Atom isDot), Eol]) [] line)"

function findBlockEndFrom :: "string list \<Rightarrow> nat \<Rightarrow> int \<Rightarrow> nat" where
  "findBlockEndFrom lines i braceCount =
     (if i < length lines then
        (let c = cleanLine (lines ! i);
             braceCount' = braceCount + (int (countChar CHR ''{'' c) - int (countChar CHR ''}'' c))
         in if braceCount' \<le> 0 then i else findBlockEndFrom lines (i + 1) braceCount')
      else length lines)"
  by pat_completeness auto
termination
  by (relation "measure (\<lambda>(lines, i, n). length lines - i)") auto

declare findBlockEndFrom.simps [simp del]

definition findBlockEnd :: "string list \<Rightarrow> nat \<Rightarrow> nat" where
  "findBlockEnd lines startLine = findBlockEndFrom lines startLine 0"

lemma findBlockEndFrom_ge: "i \<le> length lines \<Longrightarrow> i \<le> findBlockEndFrom lines i n"
proof (induction lines i n rule: findBlockEndFrom.induct)
  case (1 lines i braceCount)
  show ?case
    using "1.prems" "1.IH" [OF _ refl refl]
    by (subst findBlockEndFrom.simps) (auto simp: Let_def)
qed

text \<open>
  \<open>findNestedDefinition\<close> and its loop over the lines \<open>i < endLine\<close>. The default
  \<open>endLine = -1\<close> stands for the number of lines.
\<close>

function findNestedDefinition ::
    "string list \<Rightarrow> string list \<Rightarrow> path \<Rightarrow> nat \<Rightarrow> int \<Rightarrow> error + location option"
  and nestedLoop ::
    "string list \<Rightarrow> string \<Rightarrow> string list \<Rightarrow> path \<Rightarrow> nat \<Rightarrow> int \<Rightarrow> error + location option"
  where
  "findNestedDefinition lines parts filePath startLine endLine =
     (case parts of
        [] \<Rightarrow> Inr None
      | currentPart # remainingParts \<Rightarrow>
          nestedLoop lines currentPart remainingParts filePath startLine
            (if endLine = -1 then int (length lines) else endLine))"
| "nestedLoop lines currentPart remainingParts filePath i endLine =
     (if int i < endLine then
        (if i < length lines then
           (if startsWith (trim (lines ! i)) ''//'' then
              nestedLoop lines currentPart remainingParts filePath (i + 1) endLine
            else
              (case nameRx currentPart of
                 Inl e \<Rightarrow> Inl e
               | Inr nm \<Rightarrow>
                   (case execRx (nestedDefinitionRx nm) (lines ! i) of
                      None \<Rightarrow> nestedLoop lines currentPart remainingParts filePath (i + 1) endLine
                    | Some m \<Rightarrow>
                        if remainingParts = [] then
                          Inr (Some (getTargetLocationInline filePath i (lines ! i) currentPart m))
                        else
                          (case findNestedDefinition lines remainingParts filePath (i + 1)
                                  (min (int (findBlockEnd lines i)) endLine) of
                             Inl e \<Rightarrow> Inl e
                           | Inr (Some innerLocation) \<Rightarrow> Inr (Some innerLocation)
                           | Inr None \<Rightarrow>
                               nestedLoop lines currentPart remainingParts filePath
                                 (findBlockEnd lines i + 1) endLine))))
         else Inl TypeError)
      else Inr None)"
  by pat_completeness auto
termination
proof (relation "inv_image (less_than <*lex*> less_than <*lex*> less_than)
         (\<lambda>x. case x of
                 Inl (lines, parts, filePath, startLine, endLine) \<Rightarrow> (length parts, Suc 0, 0)
               | Inr (lines, currentPart, remainingParts, filePath, i, endLine) \<Rightarrow>
                   (Suc (length remainingParts), 0, nat (endLine - int i)))", goal_cases)
  case 1
  show ?case by auto
next
  case 2
  then show ?case by simp
next
  case 3
  then show ?case by auto
next
  case 4
  then show ?case by auto
next
  case 5
  then show ?case by auto
next
  case (6 lines currentPart remainingParts filePath i endLine)
  then have "i \<le> findBlockEnd lines i"
    unfolding findBlockEnd_def by (intro findBlockEndFrom_ge) simp
  with 6 show ?case by auto
qed

declare findNestedDefinition.simps [simp del] nestedLoop.simps [simp del]

text \<open>The loop over the lines for a target without a dot.\<close>

fun rootLoop :: "string list \<Rightarrow> string \<Rightarrow> path \<Rightarrow> nat \<Rightarrow> error + location option" where
  "rootLoop [] target file lineIndex = Inr None"
| "rootLoop (line # lines) target file lineIndex =
     (case nameRx target of
        Inl e \<Rightarrow> Inl e
      | Inr nm \<Rightarrow>
          (case execRx (rootDefinitionRx nm) line of
             Some m \<Rightarrow> Inr (Some (getTargetLocationInline file lineIndex line target m))
           | None \<Rightarrow> rootLoop lines target file (lineIndex + 1)))"

text \<open>The body of the loop over the candidate files. The read is not guarded.\<close>

definition defineInFile :: "fileSystem \<Rightarrow> string \<Rightarrow> path \<Rightarrow> error + location option" where
  "defineInFile fs target file =
     (case fs file of
        None \<Rightarrow> Inl ReadFailure
      | Some data \<Rightarrow>
          (let lines = splitOn nl data;
               packageName = packageOf lines
           in
           if CHR ''.'' \<in> set target then
             (let parts = splitOn CHR ''.'' target;
                  packageParts = splitOn CHR ''.'' packageName;
                  parts' =
                    (if packageName \<noteq> [] \<and> startsWith target (packageName @ ''.'')
                        \<and> take (length packageParts) parts = packageParts
                     then drop (length packageParts) parts
                     else parts)
              in findNestedDefinition lines parts' file 0 (-1))
           else rootLoop lines target file 0))"

definition findEnumOrMessageDefinition ::
  "fileSystem \<Rightarrow> path \<Rightarrow> path list \<Rightarrow> path list list \<Rightarrow> string \<Rightarrow> error + location option" where
  "findEnumOrMessageDefinition fs document imported scanned target =
     firstReturn (defineInFile fs target) (candidateFiles document imported scanned)"

declare searchFrom.simps [simp del]
declare matchAllFrom.simps [simp del]

text \<open>The equations that evaluate the parsers on a given text.\<close>

lemmas ev = parseMessage.simps parseMessageWithin.simps braceScan.simps searchFrom.simps
  matchAllFrom.simps valueRx_src_def enumStep_src_def parseEnum_src_def bodyStep_src_def
  parseMessage_src_def
  isSpace_def isDigit_def isWord_def isDot_def isAny_def trim_def startsWith_def substring_def
  charAt_def countChar_def digitValue_def decimal_def parseInt_def prevChar_def atBoundary_def
  ch_def plus_def execRx_def grp_def matchAll_def replaceFirst_def nameRx_def commentRun_def
  messageStartRx_def enumRx_def commentTokenRx_def cleanComment_def leadingComment_def
  nestedMessageRx_def nestedEnumRx_def notAngle_def isOptionChar_def fieldRx_def valueRx_def
  truthy_def allComments_def commentOf_def enumStep_def parseEnum_def fieldOf_def bodyStep_def
  initialBody_def emptyMessage_def Let_def candidateFiles_def firstOf_def packageRx_def
  keywordOpenRx_def boundedOpenRx_def infoName_def qualifiedName_def tryMessage_def tryEnum_def
  lookInFile_def getMessageOrEnumInfo_def containingStep_def getContainingEnum_def upper_def
  enumValueRx_def hoverEnumValue_def packageLineRx_def rootDefinitionRx_def
  nestedDefinitionRx_def getTargetLocationInline_def cleanLine_def findBlockEndFrom.simps
  findBlockEnd_def findNestedDefinition.simps nestedLoop.simps defineInFile_def
  findEnumOrMessageDefinition_def

section \<open>Facts about the matcher\<close>

lemma mt_Seq_mem:
  "x \<in> set (mt inp (Seq a b) st) \<longleftrightarrow> (\<exists>y\<in>set (mt inp a st). x \<in> set (mt inp b y))"
  by auto

lemma mt_suffix:
  "x \<in> set (mt inp r st) \<Longrightarrow> \<exists>w. snd st = w @ snd x"
proof (induction inp r st arbitrary: x rule: mt.induct)
  case (1 inp p cs s)
  then show ?case by (auto split: list.splits if_splits)
next
  case (3 inp a b st)
  from "3.prems" obtain y where y: "y \<in> set (mt inp a st)" and x: "x \<in> set (mt inp b y)"
    by auto
  from "3.IH"(1) [OF y] "3.IH"(2) [OF y x] show ?case by auto
next
  case (5 inp a cs s)
  from "5.prems" consider "x = (cs, s)"
    | y where "y \<in> set (mt inp a (cs, s))" "length (snd y) < length s"
        "x \<in> set (mt inp (Star a) y)"
    by (auto split: if_splits)
  then show ?case
  proof cases
    case 1
    then show ?thesis by simp
  next
    case 2
    from "5.IH"(1) [OF 2(1)] "5.IH"(2) [OF 2(1,2,3)] show ?thesis by auto
  qed
next
  case (6 inp a cs s)
  from "6.prems" consider "x = (cs, s)"
    | y where "y \<in> set (mt inp a (cs, s))" "length (snd y) < length s"
        "x \<in> set (mt inp (Lazy a) y)"
    by (auto split: if_splits)
  then show ?case
  proof cases
    case 1
    then show ?thesis by simp
  next
    case 2
    from "6.IH"(1) [OF 2(1)] "6.IH"(2) [OF 2(1,2,3)] show ?thesis by auto
  qed
qed (auto split: if_splits)


text \<open>A star of one character class.\<close>

lemma mt_Star_Atom_Nil [simp]: "mt inp (Star (Atom p)) (cs, []) = [(cs, [])]"
  by simp

lemma mt_Star_Atom_Cons:
  "mt inp (Star (Atom p)) (cs, c # s) =
     (if p c then mt inp (Star (Atom p)) (cs, s) @ [(cs, c # s)] else [(cs, c # s)])"
  by simp

lemma mt_Star_Atom_first:
  assumes "list_all p w" and "case s of [] \<Rightarrow> True | c # _ \<Rightarrow> \<not> p c"
  shows "\<exists>t. mt inp (Star (Atom p)) (cs, w @ s) = (cs, s) # t"
  using assms
proof (induction w)
  case Nil
  then show ?case by (cases s) (simp_all add: mt_Star_Atom_Cons)
next
  case (Cons c w)
  then obtain t where "mt inp (Star (Atom p)) (cs, w @ s) = (cs, s) # t" by auto
  with Cons.prems show ?case by (simp add: mt_Star_Atom_Cons del: mt.simps)
qed

lemma mt_Star_Atom_mem:
  "x \<in> set (mt inp (Star (Atom p)) (cs, s)) \<longleftrightarrow>
     fst x = cs \<and> (\<exists>w. s = w @ snd x \<and> list_all p w)"
proof (induction s)
  case Nil
  show ?case by (cases x) auto
next
  case (Cons c s)
  show ?case
  proof (cases "p c")
    case True
    have "x \<in> set (mt inp (Star (Atom p)) (cs, c # s)) \<longleftrightarrow>
            x = (cs, c # s) \<or> (fst x = cs \<and> (\<exists>w. s = w @ snd x \<and> list_all p w))"
      using True Cons by (auto simp add: mt_Star_Atom_Cons simp del: mt.simps)
    also have "\<dots> \<longleftrightarrow> fst x = cs \<and> (\<exists>w. c # s = w @ snd x \<and> list_all p w)"
    proof (cases x)
      case (Pair cs' s')
      show ?thesis
        unfolding Pair using True
        by (auto simp: Cons_eq_append_conv)
    qed
    finally show ?thesis .
  next
    case False
    show ?thesis
    proof (cases x)
      case (Pair cs' s')
      show ?thesis
        unfolding Pair using False
        by (auto simp add: mt_Star_Atom_Cons Cons_eq_append_conv simp del: mt.simps)
    qed
  qed
qed

lemma mt_lit:
  "mt inp (lit w) (cs, s) = (if take (length w) s = w then [(cs, drop (length w) s)] else [])"
proof (induction w arbitrary: s)
  case Nil
  show ?case by simp
next
  case (Cons c w)
  show ?case
  proof (cases s)
    case Nil
    then show ?thesis by (simp add: ch_def)
  next
    case (Cons d s')
    with Cons.IH [of s'] show ?thesis by (auto simp: ch_def)
  qed
qed

lemma mt_lit_append [simp]: "mt inp (lit w) (cs, w @ s) = [(cs, s)]"
  by (simp add: mt_lit)

lemma mt_ch_Cons [simp]: "mt inp (ch c) (cs, d # s) = (if d = c then [(cs, s)] else [])"
  by (simp add: ch_def)

lemma mt_ch_Nil [simp]: "mt inp (ch c) (cs, []) = []"
  by (simp add: ch_def)

text \<open>The first match of a sequence, of \<open>r+\<close> and of a group.\<close>

lemma first_Seq:
  assumes "\<exists>t. mt inp a st = y # t" and "\<exists>t. mt inp b y = z # t"
  shows "\<exists>t. mt inp (Seq a b) st = z # t"
  using assms by auto

lemma first_plus_Atom:
  assumes "w \<noteq> []" "list_all p w" and "case s of [] \<Rightarrow> True | c # _ \<Rightarrow> \<not> p c"
  shows "\<exists>t. mt inp (plus (Atom p)) (cs, w @ s) = (cs, s) # t"
proof -
  from assms(1) obtain c w' where w: "w = c # w'" by (cases w) auto
  with assms(2) have "p c" "list_all p w'" by auto
  from mt_Star_Atom_first [OF this(2) assms(3), of inp cs]
  obtain t where "mt inp (Star (Atom p)) (cs, w' @ s) = (cs, s) # t" by auto
  with \<open>p c\<close> show ?thesis
    unfolding plus_def w by (simp del: mt.simps(5) add: mt.simps(5) [of inp "Atom p" cs "w' @ s", symmetric])
qed


lemma word_not_space: "isWord c \<Longrightarrow> \<not> isSpace c"
  by (auto simp: isWord_def isSpace_def)

lemma digit_not_space: "isDigit c \<Longrightarrow> \<not> isSpace c"
  by (auto simp: isDigit_def isSpace_def)

lemma trim_id:
  assumes "s \<noteq> []" "\<not> isSpace (hd s)" "\<not> isSpace (last s)"
  shows "trim s = s"
proof -
  from assms(1,2) have a: "dropWhile isSpace s = s" by (cases s) auto
  from assms(1,3) have "dropWhile isSpace (rev s) = rev s"
    by (cases "rev s") (auto simp: last_rev [symmetric] simp del: last_rev)
  with a show ?thesis by (simp add: trim_def)
qed

text \<open>A run of blanks, or of digits, before a character that is none.\<close>

lemma run_then:
  assumes "list_all P w" and "case s of [] \<Rightarrow> True | c # _ \<Rightarrow> \<not> P c"
  shows "dropWhile P (w @ s) = s" and "takeWhile P (w @ s) = w"
proof -
  from assms(2) have d: "dropWhile P s = s" and t: "takeWhile P s = []"
    by (cases s; simp)+
  from assms(1) show "dropWhile P (w @ s) = s"
    by (simp add: dropWhile_append2 list_all_iff d)
  from assms(1) show "takeWhile P (w @ s) = w"
    by (simp add: takeWhile_append2 list_all_iff t)
qed



text \<open>A match of a pattern is one of the ways in which the matcher runs it somewhere.\<close>

lemma searchFrom_Some:
  "searchFrom inp r s = Some m \<Longrightarrow> \<exists>s0 s'. (groups m, s') \<in> set (mt inp r (Map.empty, s0))"
proof (induction s)
  case Nil
  show ?case
  proof (cases "mt inp r (Map.empty, [])")
    case Nil
    with Nil.prems show ?thesis
      by (subst (asm) searchFrom.simps) simp
  next
    case (Cons x xs)
    with Nil.prems have "groups m = fst x"
      by (subst (asm) searchFrom.simps) (auto split: prod.splits)
    with Cons have "(groups m, snd x) \<in> set (mt inp r (Map.empty, []))" by simp
    then show ?thesis by blast
  qed
next
  case (Cons c s)
  show ?case
  proof (cases "mt inp r (Map.empty, c # s)")
    case Nil
    with Cons.prems have "searchFrom inp r s = Some m"
      by (subst (asm) searchFrom.simps) simp
    from Cons.IH [OF this] show ?thesis .
  next
    case (Cons x xs)
    with Cons.prems have "groups m = fst x"
      by (subst (asm) searchFrom.simps) (auto split: prod.splits)
    with Cons have "(groups m, snd x) \<in> set (mt inp r (Map.empty, c # s))" by simp
    then show ?thesis by blast
  qed
qed

lemma mt_plus_Atom_mem:
  assumes "x \<in> set (mt inp (plus (Atom p)) (cs, s))"
  shows "fst x = cs \<and> (\<exists>w. s = w @ snd x \<and> w \<noteq> [] \<and> list_all p w)"
proof -
  from assms obtain c s1 where s: "s = c # s1" and c: "p c"
    and x: "x \<in> set (mt inp (Star (Atom p)) (cs, s1))"
    unfolding plus_def by (auto simp del: mt.simps(5) split: list.splits if_splits)
  from x have "fst x = cs" and "\<exists>w. s1 = w @ snd x \<and> list_all p w"
    unfolding mt_Star_Atom_mem by blast+
  then obtain w where "s1 = w @ snd x" "list_all p w" by auto
  with s c have "s = (c # w) @ snd x \<and> c # w \<noteq> [] \<and> list_all p (c # w)" by simp
  with \<open>fst x = cs\<close> show ?thesis by blast
qed

lemma captured_name:
  assumes "x \<in> set (mt inp (Seq (Grp n (plus (Atom p))) (Seq (Star (Atom q)) (ch c))) st)"
  shows "\<exists>w. fst x n = Some w \<and> w \<noteq> [] \<and> list_all p w"
proof -
  obtain cs s where st: "st = (cs, s)" by (cases st)
  from assms [unfolded st] obtain z u where
    z: "z \<in> set (mt inp (Grp n (plus (Atom p))) (cs, s))"
    and u: "u \<in> set (mt inp (Star (Atom q)) z)" and x: "x \<in> set (mt inp (ch c) u)"
    unfolding mt_Seq_mem by blast
  from z obtain y where y: "y \<in> set (mt inp (plus (Atom p)) (cs, s))"
    and zy: "z = ((fst y)(n \<mapsto> take (length s - length (snd y)) s), snd y)"
    by auto
  from mt_plus_Atom_mem [OF y] obtain w where w: "s = w @ snd y" "w \<noteq> []" "list_all p w"
    by auto
  then have zn: "fst z n = Some w" unfolding zy by simp
  from u have "fst u = fst z"
    using mt_Star_Atom_mem [of u inp q "fst z" "snd z"] by simp
  moreover from x have "fst x = fst u"
    by (cases u) (auto simp: ch_def split: list.splits if_splits)
  ultimately show ?thesis using zn w by auto
qed

lemma nested_name_word:
  assumes "execRx nestedMessageRx line = Some m \<or> execRx nestedEnumRx line = Some m"
  shows "list_all isWord (grp m 1)"
proof -
  from assms obtain s0 s' where
    "(groups m, s') \<in> set (mt line nestedMessageRx (Map.empty, s0))
     \<or> (groups m, s') \<in> set (mt line nestedEnumRx (Map.empty, s0))"
    unfolding execRx_def using searchFrom_Some [of line _ line m] by blast
  then obtain y where
    "(groups m, s') \<in> set (mt line (Seq (Grp 1 (plus wd)) (Seq (Star ws) (ch CHR ''{''))) y)"
    unfolding nestedMessageRx_def nestedEnumRx_def seqs.simps mt_Seq_mem [of _ _ Bol]
      mt_Seq_mem [of _ _ "lit _"] mt_Seq_mem [of _ _ "plus ws"]
    by blast
  from captured_name [OF this] show ?thesis by (auto simp: grp_def)
qed

lemma nameRx_word: "list_all isWord n \<Longrightarrow> nameRx n = Inr (lit n)"
  by (simp add: nameRx_def)

lemma bodyStep_total:
  assumes pm: "\<And>n. list_all isWord n \<Longrightarrow> \<exists>m. pm n bodyContent = Inr m"
    and pe: "\<And>n. list_all isWord n \<Longrightarrow> \<exists>e. pe n bodyContent = Inr e"
  shows "\<exists>st'. bodyStep pm pe bodyContent line st = Inr st'"
proof (cases "execRx nestedMessageRx (trim line)")
  case None
  show ?thesis
  proof (cases "execRx nestedEnumRx (trim line)")
    case None
    with \<open>execRx nestedMessageRx (trim line) = None\<close> show ?thesis
      by (auto simp: bodyStep_def Let_def split: option.splits)
  next
    case (Some m)
    from pe [OF nested_name_word [OF disjI2 [OF Some]]] obtain e
      where "pe (grp m 1) bodyContent = Inr e" by auto
    with Some \<open>execRx nestedMessageRx (trim line) = None\<close> show ?thesis
      by (auto simp: bodyStep_def Let_def)
  qed
next
  case (Some m)
  from pm [OF nested_name_word [OF disjI1 [OF Some]]] obtain i
    where "pm (grp m 1) bodyContent = Inr i" by auto
  with Some show ?thesis
    by (auto simp: bodyStep_def Let_def)
qed

lemma parseBody_total:
  assumes pm: "\<And>n. list_all isWord n \<Longrightarrow> \<exists>m. pm n bodyContent = Inr m"
    and pe: "\<And>n. list_all isWord n \<Longrightarrow> \<exists>e. pe n bodyContent = Inr e"
  shows "\<exists>st'. parseBody pm pe bodyContent lines st = Inr st'"
proof (induction lines arbitrary: st)
  case Nil
  show ?case by simp
next
  case (Cons l ls)
  from bodyStep_total [of pm bodyContent pe l st] pm pe obtain st1
    where "bodyStep pm pe bodyContent l st = Inr st1" by blast
  with Cons.IH [of st1] show ?case by simp
qed

lemma parseEnum_total: "list_all isWord n \<Longrightarrow> \<exists>e. parseEnum n content = Inr e"
  by (auto simp: parseEnum_def nameRx_word split: option.splits)

section \<open>Lines that no pattern matches\<close>

text \<open>A pattern is dead on a line when it matches at no suffix of the line.\<close>

definition deadOn :: "string \<Rightarrow> rx \<Rightarrow> string \<Rightarrow> bool" where
  "deadOn inp r line = (\<forall>cs s u. line = u @ s \<longrightarrow> mt inp r (cs, s) = [])"

lemma deadOn_Seq:
  assumes "deadOn inp b line"
  shows "deadOn inp (Seq a b) line"
  unfolding deadOn_def
proof (intro allI impI)
  fix cs s u
  assume line: "line = u @ s"
  have "mt inp b y = []" if "y \<in> set (mt inp a (cs, s))" for y
  proof -
    from mt_suffix [OF that] obtain w where "s = w @ snd y" by auto
    with line have "line = (u @ w) @ snd y" by simp
    with assms have "mt inp b (fst y, snd y) = []" unfolding deadOn_def by blast
    then show ?thesis by simp
  qed
  then show "mt inp (Seq a b) (cs, s) = []" by simp
qed

lemma deadOn_ch: "c \<notin> set line \<Longrightarrow> deadOn inp (ch c) line"
  unfolding deadOn_def by (auto simp: ch_def split: list.splits)

lemma deadOn_searchFrom:
  assumes "deadOn inp r inp"
  shows "inp = u @ s \<Longrightarrow> searchFrom inp r s = None"
proof (induction s arbitrary: u)
  case Nil
  with assms have "mt inp r (Map.empty, []) = []" unfolding deadOn_def by blast
  then show ?case by (subst searchFrom.simps) simp
next
  case (Cons c s)
  with assms have "mt inp r (Map.empty, c # s) = []" unfolding deadOn_def by blast
  moreover from Cons.prems have "inp = (u @ [c]) @ s" by simp
  from Cons.IH [OF this] have "searchFrom inp r s = None" .
  ultimately show ?case by (subst searchFrom.simps) simp
qed

lemma deadOn_execRx: "deadOn inp r inp \<Longrightarrow> execRx r inp = None"
  unfolding execRx_def using deadOn_searchFrom [of inp r "[]" inp] by simp


text \<open>
  A line has a numbered tag when some equals sign in it is followed by blanks (if any),
  a run of digits, blanks (if any) and then a semicolon or an opening bracket.
\<close>

definition numberedAt :: "string \<Rightarrow> bool" where
  "numberedAt v =
     (let a = dropWhile isSpace v;
          b = dropWhile isSpace (dropWhile isDigit a)
      in takeWhile isDigit a \<noteq> [] \<and>
         (case b of [] \<Rightarrow> False | c # _ \<Rightarrow> c = CHR ''['' \<or> c = CHR '';''))"

fun numberedTag :: "string \<Rightarrow> bool" where
  "numberedTag [] = False"
| "numberedTag (c # s) = ((c = CHR ''='' \<and> numberedAt s) \<or> numberedTag s)"

lemma numberedTag_append: "numberedAt s \<Longrightarrow> numberedTag (u @ CHR ''='' # s)"
  by (induction u) simp_all

lemma numberedAt_shape:
  assumes "list_all isSpace w" "d \<noteq> []" "list_all isDigit d" "list_all isSpace w3"
    and "c = CHR ''['' \<or> c = CHR '';''"
  shows "numberedAt (w @ d @ w3 @ c # rest)"
proof -
  from assms(2,3) have hd: "\<not> isSpace (hd d)" by (cases d) (auto dest: digit_not_space)
  from assms(5) have c: "\<not> isSpace c" "\<not> isDigit c"
    by (auto simp: isSpace_def isDigit_def)
  have a: "dropWhile isSpace (w @ d @ w3 @ c # rest) = d @ w3 @ c # rest"
    using run_then(1) [OF assms(1), of "d @ w3 @ c # rest"] hd assms(2) by (cases d) auto
  have nd: "case w3 @ c # rest of [] \<Rightarrow> True | x # _ \<Rightarrow> \<not> isDigit x"
    using assms(4) c(2) by (cases w3) (auto simp: isSpace_def isDigit_def)
  have t: "takeWhile isDigit (d @ w3 @ c # rest) = d"
    and b: "dropWhile isDigit (d @ w3 @ c # rest) = w3 @ c # rest"
    using run_then [OF assms(3) nd] by simp_all
  have e: "dropWhile isSpace (w3 @ c # rest) = c # rest"
    using run_then(1) [OF assms(4), of "c # rest"] c(1) by simp
  show ?thesis
    unfolding numberedAt_def Let_def a t b e using assms(2,5) by simp
qed

text \<open>
  The part of the field pattern after the equals sign:
  \<open>\s*(\d+)(?:\s*\[([\s\w=,]+)\])?\s*;(?:\s*\/\/\s*(.*))?$\<close>
\<close>

lemma field_tail_numbered:
  assumes "mt inp (Seq (Star ws) (Seq (Grp 7 (plus (Atom isDigit)))
             (Seq (Opt (Seq (Star ws) (Seq (ch CHR ''['') o1)))
                (Seq (Star ws) (Seq (ch CHR '';'') e1))))) (cs, s) \<noteq> []"
  shows "numberedAt s"
proof -
  let ?O = "Seq (Star ws) (Seq (ch CHR ''['') o1)"
  let ?S = "Seq (Star ws) (Seq (ch CHR '';'') e1)"
  from assms obtain z where
    "z \<in> set (mt inp (Seq (Star ws) (Seq (Grp 7 (plus (Atom isDigit))) (Seq (Opt ?O) ?S))) (cs, s))"
    by (meson last_in_set)
  then obtain a b q where a: "a \<in> set (mt inp (Star ws) (cs, s))"
    and b: "b \<in> set (mt inp (Grp 7 (plus (Atom isDigit))) a)"
    and q: "q \<in> set (mt inp (Opt ?O) b)" and z: "z \<in> set (mt inp ?S q)"
    unfolding mt_Seq_mem by blast
  from a obtain w where w: "s = w @ snd a" "list_all isSpace w"
    unfolding mt_Star_Atom_mem by blast
  from b obtain y where y: "y \<in> set (mt inp (plus (Atom isDigit)) (fst a, snd a))"
    and by': "snd b = snd y"
    by (cases a) auto
  from mt_plus_Atom_mem [OF y] obtain d where d: "snd a = d @ snd y" "d \<noteq> []" "list_all isDigit d"
    by auto
  have "\<exists>w3 c rest. snd b = w3 @ c # rest \<and> list_all isSpace w3 \<and> (c = CHR ''['' \<or> c = CHR '';'')"
  proof (cases "q = b")
    case True
    from z obtain p where p: "p \<in> set (mt inp (Star ws) q)" and z': "z \<in> set (mt inp (Seq (ch CHR '';'') e1) p)"
      unfolding mt_Seq_mem by blast
    from p obtain w3 where w3: "snd q = w3 @ snd p" "list_all isSpace w3"
      using mt_Star_Atom_mem [of p inp isSpace "fst q" "snd q"] by auto
    from z' obtain rest where "snd p = CHR '';'' # rest"
      by (cases p; cases "snd p") (auto simp: ch_def split: if_splits)
    with w3 True show ?thesis by auto
  next
    case False
    with q have "q \<in> set (mt inp ?O b)"
      by (cases b) auto
    then obtain p where p: "p \<in> set (mt inp (Star ws) b)" and q': "q \<in> set (mt inp (Seq (ch CHR ''['') o1) p)"
      unfolding mt_Seq_mem by blast
    from p obtain w3 where w3: "snd b = w3 @ snd p" "list_all isSpace w3"
      using mt_Star_Atom_mem [of p inp isSpace "fst b" "snd b"] by auto
    from q' obtain rest where "snd p = CHR ''['' # rest"
      by (cases p; cases "snd p") (auto simp: ch_def split: if_splits)
    with w3 show ?thesis by auto
  qed
  then obtain w3 c rest where "snd b = w3 @ c # rest" "list_all isSpace w3"
    "c = CHR ''['' \<or> c = CHR '';''" by blast
  with w d by' have "s = w @ d @ w3 @ c # rest" by simp
  with numberedAt_shape [OF w(2) d(2,3) \<open>list_all isSpace w3\<close> \<open>c = CHR ''['' \<or> c = CHR '';''\<close>]
  show ?thesis by simp
qed

lemma field_tail_dead:
  assumes "\<not> numberedTag line"
  shows "deadOn inp
           (seqs [ch CHR ''='', Star ws, Grp 7 (plus (Atom isDigit)),
                  Opt (seqs [Star ws, ch CHR ''['', Grp 8 (plus (Atom isOptionChar)), ch CHR '']'']),
                  Star ws, ch CHR '';'', e1, e2]) line"
  unfolding deadOn_def
proof (intro allI impI)
  fix cs s u
  assume us: "line = u @ s"
  let ?B = "Seq (Star ws) (Seq (Grp 7 (plus (Atom isDigit)))
             (Seq (Opt (Seq (Star ws) (Seq (ch CHR ''['') (Seq (Grp 8 (plus (Atom isOptionChar))) (ch CHR '']'')))))
                (Seq (Star ws) (Seq (ch CHR '';'') (Seq e1 e2)))))"
  show "mt inp (seqs [ch CHR ''='', Star ws, Grp 7 (plus (Atom isDigit)),
                  Opt (seqs [Star ws, ch CHR ''['', Grp 8 (plus (Atom isOptionChar)), ch CHR '']'']),
                  Star ws, ch CHR '';'', e1, e2]) (cs, s) = []"
  proof (cases s)
    case Nil
    then show ?thesis by simp
  next
    case (Cons c s1)
    show ?thesis
    proof (cases "c = CHR ''=''")
      case False
      with Cons show ?thesis by simp
    next
      case True
      have "mt inp ?B (cs, s1) = []"
      proof (rule ccontr)
        assume "mt inp ?B (cs, s1) \<noteq> []"
        from field_tail_numbered [OF this] have "numberedAt s1" .
        from numberedTag_append [OF this, of u] us Cons True assms show False by simp
      qed
      with Cons True show ?thesis by (simp del: mt.simps(5))
    qed
  qed
qed

lemma fieldRx_dead:
  assumes "\<not> numberedTag line"
  shows "execRx fieldRx line = None"
proof (rule deadOn_execRx)
  show "deadOn line fieldRx line"
    unfolding fieldRx_def seqs.simps
    apply (rule deadOn_Seq)
    apply (rule deadOn_Seq)
    apply (rule deadOn_Seq)
    apply (rule deadOn_Seq)
    apply (rule deadOn_Seq)
    apply (rule deadOn_Seq)
    apply (rule deadOn_Seq)
    apply (rule deadOn_Seq)
    apply (rule field_tail_dead [OF assms, unfolded seqs.simps])
    done
qed

lemma countChar_absent: "c \<notin> set s \<Longrightarrow> countChar c s = 0"
  by (auto simp: countChar_def filter_empty_conv)

lemma nested_dead:
  assumes "CHR ''{'' \<notin> set line"
  shows "execRx nestedMessageRx line = None" and "execRx nestedEnumRx line = None"
proof -
  have d: "deadOn line (ch CHR ''{'') line" using assms by (rule deadOn_ch)
  show "execRx nestedMessageRx line = None"
    unfolding nestedMessageRx_def seqs.simps
    by (intro deadOn_execRx deadOn_Seq d)
  show "execRx nestedEnumRx line = None"
    unfolding nestedEnumRx_def seqs.simps
    by (intro deadOn_execRx deadOn_Seq d)
qed

text \<open>
  In the loop of \<open>parseMessage\<close>, a line without a numbered tag and without a brace
  that is not a comment does what an empty line does, in both copies.
\<close>

lemma bodyStep_src_empty:
  "bodyStep_src [] st =
     st\<lparr>pendingComments := (if braceDepth st = 0 then [] else pendingComments st)\<rparr>"
  by (simp add: bodyStep_src_def trim_def startsWith_def countChar_def)

lemma set_trim: "set (trim s) \<subseteq> set s"
  unfolding trim_def by (auto dest!: set_dropWhileD)

lemma bodyStep_malformed:
  assumes tag: "\<not> numberedTag (trim bad)"
    and nob: "CHR ''{'' \<notin> set bad" "CHR ''}'' \<notin> set bad"
    and noc: "\<not> startsWith (trim bad) ''//''"
  shows "bodyStep pm pe bodyContent bad st =
           Inr (st\<lparr>pendingComments := (if braceDepth st = 0 then [] else pendingComments st)\<rparr>)"
    and "bodyStep_src bad st =
           st\<lparr>pendingComments := (if braceDepth st = 0 then [] else pendingComments st)\<rparr>"
proof -
  have c: "countChar CHR ''{'' bad = 0" "countChar CHR ''}'' bad = 0"
    using nob by (simp_all add: countChar_absent)
  from nob(1) set_trim [of bad] have "CHR ''{'' \<notin> set (trim bad)" by auto
  note dead = nested_dead [OF this] fieldRx_dead [OF tag]
  show "bodyStep pm pe bodyContent bad st =
           Inr (st\<lparr>pendingComments := (if braceDepth st = 0 then [] else pendingComments st)\<rparr>)"
    unfolding bodyStep_def using c noc dead by (simp add: Let_def)
  show "bodyStep_src bad st =
           st\<lparr>pendingComments := (if braceDepth st = 0 then [] else pendingComments st)\<rparr>"
    unfolding bodyStep_src_def using c noc dead by (simp add: Let_def)
qed


lemma bodyStep_empty:
  "bodyStep pm pe bodyContent [] st =
     Inr (st\<lparr>pendingComments := (if braceDepth st = 0 then [] else pendingComments st)\<rparr>)"
  by (simp add: bodyStep_def trim_def startsWith_def countChar_def)

lemma parseBody_append:
  "parseBody pm pe bodyContent (pre @ lines) st =
     (case parseBody pm pe bodyContent pre st of
        Inl e \<Rightarrow> Inl e
      | Inr st' \<Rightarrow> parseBody pm pe bodyContent lines st')"
  by (induction pre arbitrary: st) (auto split: sum.splits)

section \<open>Matching in a part of the text\<close>

text \<open>A pattern is local when it has no anchor and no word boundary.\<close>

fun localRx :: "rx \<Rightarrow> bool" where
  "localRx (Atom p) = True"
| "localRx Eps = True"
| "localRx (Seq a b) = (localRx a \<and> localRx b)"
| "localRx (Alt a b) = (localRx a \<and> localRx b)"
| "localRx (Star a) = localRx a"
| "localRx (Lazy a) = localRx a"
| "localRx (Opt a) = localRx a"
| "localRx (Grp n a) = localRx a"
| "localRx Bol = False"
| "localRx Eol = False"
| "localRx WordB = False"





lemma searchFrom_decomp:
  "searchFrom inp r s = Some m \<Longrightarrow>
     \<exists>u v cs s' t. s = u @ v \<and> mt inp r (Map.empty, v) = (cs, s') # t
        \<and> m = \<lparr>index = length inp - length v, matched = take (length v - length s') v,
                groups = cs\<rparr>"
proof (induction s)
  case Nil
  then show ?case
    by (subst (asm) searchFrom.simps) (auto split: list.splits)
next
  case (Cons c s)
  show ?case
  proof (cases "mt inp r (Map.empty, c # s)")
    case Nil
    with Cons.prems have "searchFrom inp r s = Some m"
      by (subst (asm) searchFrom.simps) simp
    from Cons.IH [OF this] obtain u v cs s' t where
      "s = u @ v" "mt inp r (Map.empty, v) = (cs, s') # t"
      "m = \<lparr>index = length inp - length v, matched = take (length v - length s') v, groups = cs\<rparr>"
      by blast
    then have "c # s = (c # u) @ v" by simp
    with \<open>mt inp r (Map.empty, v) = (cs, s') # t\<close>
      \<open>m = \<lparr>index = length inp - length v, matched = take (length v - length s') v, groups = cs\<rparr>\<close>
    show ?thesis by blast
  next
    case (Cons y ys)
    obtain cs s' where y: "y = (cs, s')" by (cases y)
    with Cons Cons.prems have
      "m = \<lparr>index = length inp - length (c # s),
             matched = take (length (c # s) - length s') (c # s), groups = cs\<rparr>"
      by (subst (asm) searchFrom.simps) simp
    with Cons y have "c # s = [] @ (c # s) \<and> mt inp r (Map.empty, c # s) = (cs, s') # ys
      \<and> m = \<lparr>index = length inp - length (c # s),
             matched = take (length (c # s) - length s') (c # s), groups = cs\<rparr>"
      by simp
    then show ?thesis by blast
  qed
qed


text \<open>A pattern that ends in a given character matches texts that end in it.\<close>

definition endsIn :: "char \<Rightarrow> rx \<Rightarrow> bool" where
  "endsIn c r = (\<forall>inp y z. z \<in> set (mt inp r y) \<longrightarrow> (\<exists>w. snd y = w @ c # snd z))"

lemma endsIn_ch: "endsIn c (ch c)"
  unfolding endsIn_def by (auto simp: ch_def split: list.splits if_splits)

lemma endsIn_Seq: "endsIn c b \<Longrightarrow> endsIn c (Seq a b)"
  unfolding endsIn_def
proof (intro allI impI)
  fix inp y z
  assume b: "\<forall>inp y z. z \<in> set (mt inp b y) \<longrightarrow> (\<exists>w. snd y = w @ c # snd z)"
    and z: "z \<in> set (mt inp (Seq a b) y)"
  from z obtain y1 where y1: "y1 \<in> set (mt inp a y)" and z1: "z \<in> set (mt inp b y1)"
    unfolding mt_Seq_mem by blast
  from mt_suffix [OF y1] obtain w1 where "snd y = w1 @ snd y1" by auto
  moreover from b z1 obtain w2 where "snd y1 = w2 @ c # snd z" by blast
  ultimately have "snd y = (w1 @ w2) @ c # snd z" by simp
  then show "\<exists>w. snd y = w @ c # snd z" by blast
qed

lemma endsIn_matched:
  assumes "endsIn c r" and "execRx r T = Some m"
  shows "\<exists>w. matched m = w @ [c]"
proof -
  from assms(2) obtain u v cs s' t where
    hit: "mt T r (Map.empty, v) = (cs, s') # t"
    and mm: "m = \<lparr>index = length T - length v, matched = take (length v - length s') v, groups = cs\<rparr>"
    unfolding execRx_def by (blast dest: searchFrom_decomp)
  from hit have "(cs, s') \<in> set (mt T r (Map.empty, v))" by simp
  with assms(1) obtain w where "v = w @ c # s'" unfolding endsIn_def by fastforce
  with mm show ?thesis by simp
qed

lemma lastIndexOfChar_last: "lastIndexOfChar (w @ [c]) c = int (length w)"
  by (induction w) (simp_all add: Let_def)

lemma messageStartRx_props:
  assumes "list_all isWord name"
  shows "localRx (messageStartRx (lit name))" and "endsIn CHR ''{'' (messageStartRx (lit name))"
proof -
  have "localRx (lit w)" for w by (induction w) (simp_all add: ch_def)
  then show "localRx (messageStartRx (lit name))"
    by (simp add: messageStartRx_def commentRun_def plus_def ch_def)
  show "endsIn CHR ''{'' (messageStartRx (lit name))"
    unfolding messageStartRx_def seqs.simps
    by (intro endsIn_Seq endsIn_ch)
qed





lemma substring_take_drop:
  "0 \<le> a \<Longrightarrow> a \<le> b \<Longrightarrow> b \<le> int (length s) \<Longrightarrow>
     substring s a b = take (nat (b - a)) (drop (nat a) s)"
  by (simp add: substring_def Let_def min_def max_def)


section \<open>The order of the candidate files\<close>

lemma firstReturn_skip:
  "\<forall>f\<in>set pre. body f = Inr None \<Longrightarrow> firstReturn body (pre @ fs) = firstReturn body fs"
  by (induction pre) simp_all

lemma firstReturn_unique:
  "\<forall>f\<in>set seen. body f = Inr None \<Longrightarrow>
     firstReturn body (uniqueFrom seen fs) = firstReturn body fs"
proof (induction fs arbitrary: seen)
  case Nil
  show ?case by simp
next
  case (Cons f fs)
  show ?case
  proof (cases "f \<in> set seen")
    case True
    with Cons show ?thesis by simp
  next
    case False
    show ?thesis
    proof (cases "body f")
      case (Inl e)
      with False show ?thesis by simp
    next
      case (Inr r)
      show ?thesis
      proof (cases r)
        case None
        with Inr Cons.prems have "\<forall>g\<in>set (f # seen). body g = Inr None" by simp
        from Cons.IH [OF this] False Inr None show ?thesis by simp
      next
        case (Some x)
        with Inr False show ?thesis by simp
      qed
    qed
  qed
qed

lemma firstReturn_candidates:
  assumes "(document # imported) @ concat scanned = pre @ a # rest"
    and "\<forall>f\<in>set pre. body f = Inr None"
  shows "firstReturn body (candidateFiles document imported scanned) =
           (case body a of Inl e \<Rightarrow> Inl e | Inr (Some r) \<Rightarrow> Inr (Some r)
            | Inr None \<Rightarrow> firstReturn body rest)"
proof -
  have "firstReturn body (candidateFiles document imported scanned) =
          firstReturn body (pre @ a # rest)"
    unfolding candidateFiles_def assms(1) by (rule firstReturn_unique) simp
  also have "\<dots> = firstReturn body (a # rest)"
    using assms(2) by (rule firstReturn_skip)
  finally show ?thesis by simp
qed

text \<open>The hover loop is the same loop on a body that has caught what the \<open>try\<close> block threw.\<close>

definition caught :: "(error + info option) \<Rightarrow> error + info option" where
  "caught r = (case r of Inl e \<Rightarrow> Inr None | Inr v \<Rightarrow> Inr v)"

lemma infoFromFiles_firstReturn:
  "Inr (infoFromFiles fs targetName files) =
     firstReturn (\<lambda>f. caught (lookInFile fs targetName f)) files"
  by (induction files) (auto simp: caught_def split: sum.splits option.splits)

lemma getMessageOrEnumInfo_first:
  assumes "(document # imported) @ concat scanned = pre @ a # rest"
    and "\<forall>f\<in>set pre. \<forall>r. lookInFile fs target f \<noteq> Inr (Some r)"
    and "lookInFile fs target a = Inr (Some i)"
  shows "getMessageOrEnumInfo fs document imported scanned target = Some i"
proof -
  have skip: "\<forall>f\<in>set pre. caught (lookInFile fs target f) = Inr None"
    using assms(2) by (auto simp: caught_def split: sum.splits option.splits)
  have "Inr (getMessageOrEnumInfo fs document imported scanned target) =
          (Inr (Some i) :: error + info option)"
    unfolding getMessageOrEnumInfo_def infoFromFiles_firstReturn
    using firstReturn_candidates [OF assms(1), of "\<lambda>f. caught (lookInFile fs target f)"]
      skip assms(3)
    by (simp add: caught_def)
  then show ?thesis by simp
qed

lemma findEnumOrMessageDefinition_first:
  assumes "(document # imported) @ concat scanned = pre @ a # rest"
    and "\<forall>f\<in>set pre. defineInFile fs target f = Inr None"
    and "defineInFile fs target a = Inr (Some loc)"
  shows "findEnumOrMessageDefinition fs document imported scanned target = Inr (Some loc)"
  unfolding findEnumOrMessageDefinition_def
  using firstReturn_candidates [OF assms(1,2)] assms(3) by simp

text \<open>
  C1. The candidates are examined in the order: the document, the files of its import
  statements, the files found under the proto paths. The first file in that order with
  a match decides the answer of both providers, whatever comes later in the list. So a
  message defined in an imported file and in a file that only the scan of the proto
  paths reaches is resolved to the imported file.
\<close>

theorem resolver_precedence:
  assumes "(document # imported) @ concat scanned = pre @ a # rest"
    and "\<forall>f\<in>set pre. defineInFile fs target f = Inr None"
    and "defineInFile fs target a = Inr (Some loc)"
    and "\<forall>f\<in>set pre. \<forall>r. lookInFile fs target f \<noteq> Inr (Some r)"
    and "lookInFile fs target a = Inr (Some i)"
  shows "findEnumOrMessageDefinition fs document imported scanned target = Inr (Some loc)
       \<and> getMessageOrEnumInfo fs document imported scanned target = Some i"
  using findEnumOrMessageDefinition_first [OF assms(1,2,3)]
    getMessageOrEnumInfo_first [OF assms(1,4,5)]
  by simp

definition statusFiles :: fileSystem where
  "statusFiles =
     map_of [(''/w/doc.proto'', ''import \"a.proto\";'' @ [nl] @ ''message Req { Status s = 1; }''),
             (''/w/a.proto'', ''message Status { int32 code = 1; }''),
             (''/w/b.proto'', ''message Status { string text = 1; }'')]"

theorem resolver_precedence_witness:
  "defineInFile statusFiles ''Status'' ''/w/b.proto'' =
     Inr (Some \<lparr>l_file = ''/w/b.proto'', l_line = 0, l_start = 8, l_end = 14\<rparr>)
   \<and> findEnumOrMessageDefinition statusFiles ''/w/doc.proto'' [''/w/a.proto'']
        [[''/w/b.proto'', ''/w/a.proto'', ''/w/doc.proto'']] ''Status'' =
      Inr (Some \<lparr>l_file = ''/w/a.proto'', l_line = 0, l_start = 8, l_end = 14\<rparr>)
   \<and> getMessageOrEnumInfo statusFiles ''/w/doc.proto'' [''/w/a.proto'']
        [[''/w/b.proto'', ''/w/a.proto'', ''/w/doc.proto'']] ''Status'' =
      Some (MessageResult (MessageInfo ''Status''
              [\<lparr>f_name = ''code'', f_type = ''int32'', f_number = Exact 1,
                 f_label = None, f_comment = None\<rparr>]
              [] [] None ''message Status { int32 code = 1; }''))"
proof -
  have d: "defineInFile statusFiles ''Status'' ''/w/doc.proto'' = Inr None"
    by (simp add: ev statusFiles_def)
  have a: "defineInFile statusFiles ''Status'' ''/w/a.proto'' =
      Inr (Some \<lparr>l_file = ''/w/a.proto'', l_line = 0, l_start = 8, l_end = 14\<rparr>)"
    by (simp add: ev statusFiles_def)
  have b: "defineInFile statusFiles ''Status'' ''/w/b.proto'' =
      Inr (Some \<lparr>l_file = ''/w/b.proto'', l_line = 0, l_start = 8, l_end = 14\<rparr>)"
    by (simp add: ev statusFiles_def)
  have hd: "lookInFile statusFiles ''Status'' ''/w/doc.proto'' = Inr None"
    by (simp add: ev statusFiles_def)
  have ha: "lookInFile statusFiles ''Status'' ''/w/a.proto'' =
      Inr (Some (MessageResult (MessageInfo ''Status''
              [\<lparr>f_name = ''code'', f_type = ''int32'', f_number = Exact 1,
                 f_label = None, f_comment = None\<rparr>]
              [] [] None ''message Status { int32 code = 1; }'')))"
    by (simp add: ev statusFiles_def)
  show ?thesis
    using resolver_precedence [of "''/w/doc.proto''" "[''/w/a.proto'']"
        "[[''/w/b.proto'', ''/w/a.proto'', ''/w/doc.proto'']]" "[''/w/doc.proto'']" "''/w/a.proto''"
        "[''/w/b.proto'', ''/w/a.proto'', ''/w/doc.proto'']" statusFiles "''Status''", OF _ _ a _ ha]
      d hd b
    by simp
qed

section \<open>Qualified names\<close>

definition oneLineF :: string where
  "oneLineF = ''package a.b; message M { message N {} }''"

definition layoutF :: string where
  "layoutF = ''package a.b;'' @ [nl] @ ''message M {'' @ [nl] @ ''  message N {}'' @ [nl] @ ''}''"

text \<open>
  C2. The file \<open>package a.b; message M { message N {} }\<close>, with itself as the
  requesting document: the references \<open>a.b.M.N\<close> and \<open>M.N\<close> should resolve to \<open>N\<close>
  inside the file. The definition provider returns nothing for them:
  \<open>findNestedDefinition\<close> finds \<open>M\<close> on the line and looks for \<open>N\<close> from the next
  line on. The same provider finds \<open>N\<close> without a qualifier on that line, and the
  hover provider resolves \<open>a.b.M.N\<close> on this text.
\<close>

theorem qualified_one_line_not_found:
  "findEnumOrMessageDefinition (map_of [(''/w/f.proto'', oneLineF)]) ''/w/f.proto'' [] []
     ''a.b.M.N'' = Inr None
   \<and> findEnumOrMessageDefinition (map_of [(''/w/f.proto'', oneLineF)]) ''/w/f.proto'' [] []
     ''M.N'' = Inr None
   \<and> findEnumOrMessageDefinition (map_of [(''/w/f.proto'', oneLineF)]) ''/w/f.proto'' [] []
     ''N'' = Inr (Some \<lparr>l_file = ''/w/f.proto'', l_line = 0, l_start = 33, l_end = 34\<rparr>)
   \<and> getMessageOrEnumInfo (map_of [(''/w/f.proto'', oneLineF)]) ''/w/f.proto'' [] []
     ''a.b.M.N'' = Some (MessageResult (MessageInfo ''M.N'' [] [] [] None '' message N {}''))"
  by (simp add: ev oneLineF_def)

text \<open>
  With the declaration of \<open>N\<close> on a line after the one that opens \<open>M\<close>, both providers
  resolve the two references, from any document whose candidates hold the file and
  have no match before it.
\<close>

lemma layoutF_defines:
  assumes "fs f = Some layoutF" and "target = ''a.b.M.N'' \<or> target = ''M.N''"
  shows "defineInFile fs target f =
           Inr (Some \<lparr>l_file = f, l_line = 2, l_start = 10, l_end = 11\<rparr>)"
    and "lookInFile fs target f =
           Inr (Some (MessageResult
                  (MessageInfo ''M.N'' [] [] [] None ([nl] @ ''  message N {}''))))"
proof -
  from assms(2) show "defineInFile fs target f =
           Inr (Some \<lparr>l_file = f, l_line = 2, l_start = 10, l_end = 11\<rparr>)"
  proof
    assume "target = ''a.b.M.N''"
    then show ?thesis using assms(1) by (simp add: ev layoutF_def)
  next
    assume "target = ''M.N''"
    then show ?thesis using assms(1) by (simp add: ev layoutF_def)
  qed
  from assms(2) show "lookInFile fs target f =
           Inr (Some (MessageResult
                  (MessageInfo ''M.N'' [] [] [] None ([nl] @ ''  message N {}''))))"
  proof
    assume "target = ''a.b.M.N''"
    then show ?thesis using assms(1) by (simp add: ev layoutF_def)
  next
    assume "target = ''M.N''"
    then show ?thesis using assms(1) by (simp add: ev layoutF_def)
  qed
qed

lemma qualified_later_line:
  assumes "(document # imported) @ concat scanned = pre @ f # rest"
    and "fs f = Some layoutF"
    and "target = ''a.b.M.N'' \<or> target = ''M.N''"
    and "\<forall>g\<in>set pre. defineInFile fs target g = Inr None"
    and "\<forall>g\<in>set pre. \<forall>r. lookInFile fs target g \<noteq> Inr (Some r)"
  shows "findEnumOrMessageDefinition fs document imported scanned target =
           Inr (Some \<lparr>l_file = f, l_line = 2, l_start = 10, l_end = 11\<rparr>)
       \<and> getMessageOrEnumInfo fs document imported scanned target =
           Some (MessageResult (MessageInfo ''M.N'' [] [] [] None ([nl] @ ''  message N {}'')))"
  using findEnumOrMessageDefinition_first [OF assms(1,4)]
    getMessageOrEnumInfo_first [OF assms(1,5)]
    layoutF_defines [of fs f target] assms(2,3)
  by simp

lemma qualified_later_line_example:
  "findEnumOrMessageDefinition
     (map_of [(''/w/doc.proto'', ''package a.b;'' @ [nl] @ ''message Q { M.N f = 1; }''),
              (''/w/f.proto'', layoutF)])
     ''/w/doc.proto'' [] [[''/w/doc.proto'', ''/w/f.proto'']] ''M.N'' =
   Inr (Some \<lparr>l_file = ''/w/f.proto'', l_line = 2, l_start = 10, l_end = 11\<rparr>)
   \<and> getMessageOrEnumInfo
     (map_of [(''/w/doc.proto'', ''package a.b;'' @ [nl] @ ''message Q { M.N f = 1; }''),
              (''/w/f.proto'', layoutF)])
     ''/w/doc.proto'' [] [[''/w/doc.proto'', ''/w/f.proto'']] ''M.N'' =
   Some (MessageResult (MessageInfo ''M.N'' [] [] [] None ([nl] @ ''  message N {}'')))"
proof -
  let ?fs = "map_of [(''/w/doc.proto'', ''package a.b;'' @ [nl] @ ''message Q { M.N f = 1; }''),
              (''/w/f.proto'', layoutF)]"
  have d: "defineInFile ?fs ''M.N'' ''/w/doc.proto'' = Inr None"
    by (simp add: ev)
  have h: "lookInFile ?fs ''M.N'' ''/w/doc.proto'' = Inr None"
    by (simp add: ev)
  show ?thesis
    using qualified_later_line [of "''/w/doc.proto''" "[]" "[[''/w/doc.proto'', ''/w/f.proto'']]"
        "[''/w/doc.proto'', ''/w/doc.proto'']" "''/w/f.proto''" "[]" ?fs "''M.N''"] d h
    by simp
qed

section \<open>An unreadable candidate\<close>

definition deniedFiles :: fileSystem where
  "deniedFiles =
     map_of [(''/w/doc.proto'', ''message Req { Status s = 1; }''),
             (''/w/b.proto'', ''message Status { string text = 1; }'')]"

text \<open>
  C5. A candidate file that cannot be read is skipped and the next candidate is tried.
  The hover provider does so. The definition provider reads the file outside any
  \<open>try\<close> block: with an unreadable file among the imports, and the message defined in
  a file that comes later, the hover query answers from the later file and the
  definition query throws.
\<close>

theorem unreadable_candidate_aborts_definition:
  "deniedFiles ''/w/a.proto'' = None
   \<and> getMessageOrEnumInfo deniedFiles ''/w/doc.proto'' [''/w/a.proto''] [[''/w/b.proto'']] ''Status'' =
       Some (MessageResult (MessageInfo ''Status''
              [\<lparr>f_name = ''text'', f_type = ''string'', f_number = Exact 1,
                 f_label = None, f_comment = None\<rparr>]
              [] [] None ''message Status { string text = 1; }''))
   \<and> findEnumOrMessageDefinition deniedFiles ''/w/doc.proto'' [''/w/a.proto''] [[''/w/b.proto'']]
        ''Status'' = Inl ReadFailure"
  by (simp add: ev deniedFiles_def)

section \<open>The parser on the documents of the specification\<close>


section \<open>Parsing the extracted source again\<close>



section \<open>Malformed field lines\<close>

text \<open>
  C4, for a line without a brace. A line of the body of a message that has no numbered
  tag, holds no brace and is not a comment line, as the field lines
  \<open>string x = abc;\<close>, \<open>string x = -1;\<close>, \<open>map<string, int32> m = 0x1F;\<close> or
  \<open>repeated a.B x = 1.5 [deprecated = true]; // note\<close>: the loop of \<open>parseMessage\<close>
  adds no field for it and does not throw, and it goes on with the later lines as it
  would after an empty line, so every later valid field line is parsed. This holds in
  both copies.
\<close>

theorem malformed_field_line:
  assumes "\<not> numberedTag (trim bad)"
    and "CHR ''{'' \<notin> set bad" "CHR ''}'' \<notin> set bad"
    and "\<not> startsWith (trim bad) ''//''"
  shows "(\<exists>st'. bodyStep parseMessage parseEnum bodyContent bad st = Inr st'
            \<and> msgFields st' = msgFields st \<and> braceDepth st' = braceDepth st)
       \<and> parseBody parseMessage parseEnum bodyContent (pre @ bad # post) st =
           parseBody parseMessage parseEnum bodyContent (pre @ [] # post) st
       \<and> msgFields (bodyStep_src bad st) = msgFields st
       \<and> braceDepth (bodyStep_src bad st) = braceDepth st
       \<and> fold bodyStep_src (pre @ bad # post) st = fold bodyStep_src (pre @ [] # post) st"
proof -
  note step = bodyStep_malformed(1) [OF assms, of parseMessage parseEnum bodyContent]
  note step_src = bodyStep_malformed(2) [OF assms]
  have "bodyStep parseMessage parseEnum bodyContent bad s =
          bodyStep parseMessage parseEnum bodyContent [] s" for s
    by (simp add: step bodyStep_empty)
  then have "parseBody parseMessage parseEnum bodyContent (pre @ bad # post) st =
           parseBody parseMessage parseEnum bodyContent (pre @ [] # post) st"
    by (simp add: parseBody_append cong: sum.case_cong)
  moreover have "bodyStep_src bad s = bodyStep_src [] s" for s
    by (simp add: step_src bodyStep_src_empty)
  then have "fold bodyStep_src (pre @ bad # post) st = fold bodyStep_src (pre @ [] # post) st"
    by simp
  ultimately show ?thesis
    using step [of st] step_src [of st] by simp
qed

definition twoFields :: string where
  "twoFields = [nl] @ ''  string x = abc;'' @ [nl] @ ''  int32 y = 2;'' @ [nl]"

theorem malformed_field_line_witness:
  "parseBody parseMessage parseEnum twoFields (splitOn nl twoFields) initialBody =
     Inr (initialBody\<lparr>msgFields :=
            [\<lparr>f_name = ''y'', f_type = ''int32'', f_number = Exact 2,
               f_label = None, f_comment = None\<rparr>]\<rparr>)
   \<and> fold bodyStep_src (splitOn nl twoFields) initialBody =
       initialBody\<lparr>msgFields :=
            [\<lparr>f_name = ''y'', f_type = ''int32'', f_number = Exact 2,
               f_label = None, f_comment = None\<rparr>]\<rparr>"
proof -
  have s: "splitOn nl twoFields = [[]] @ ''  string x = abc;'' # [''  int32 y = 2;'', []]"
    by (simp add: twoFields_def)
  have h: "\<not> numberedTag (trim ''  string x = abc;'')
      \<and> CHR ''{'' \<notin> set ''  string x = abc;'' \<and> CHR ''}'' \<notin> set ''  string x = abc;''
      \<and> \<not> startsWith (trim ''  string x = abc;'') ''//''"
    by (simp add: ev numberedAt_def)
  have "parseBody parseMessage parseEnum twoFields ([[]] @ [] # [''  int32 y = 2;'', []]) initialBody =
     Inr (initialBody\<lparr>msgFields :=
            [\<lparr>f_name = ''y'', f_type = ''int32'', f_number = Exact 2,
               f_label = None, f_comment = None\<rparr>]\<rparr>)"
    by (simp add: ev)
  moreover have "fold bodyStep_src ([[]] @ [] # [''  int32 y = 2;'', []]) initialBody =
     initialBody\<lparr>msgFields :=
            [\<lparr>f_name = ''y'', f_type = ''int32'', f_number = Exact 2,
               f_label = None, f_comment = None\<rparr>]\<rparr>"
    by (simp add: ev)
  ultimately show ?thesis
    using malformed_field_line [of "''  string x = abc;''" twoFields initialBody "[[]]"
        "[''  int32 y = 2;'', []]"] h s
    by simp
qed

text \<open>Field lines with a label, a map type, a dotted type, options or a comment.\<close>

lemma malformed_examples:
  "list_all (\<lambda>bad. \<not> numberedTag (trim bad) \<and> CHR ''{'' \<notin> set bad \<and> CHR ''}'' \<notin> set bad
               \<and> \<not> startsWith (trim bad) ''//'')
     [''  optional string a = abc; // first'', ''string x = -1;'',
      ''map<string, int32> m = 0x1F;'',
      ''  repeated a.B x = 1.5 [deprecated = true]; // note'']"
  by (simp add: ev numberedAt_def)

lemma parseMessage_skips_malformed_field:
  "parseMessage ''M'' (''message M {'' @ twoFields @ ''}'') =
     Inr (MessageInfo ''M''
            [\<lparr>f_name = ''y'', f_type = ''int32'', f_number = Exact 2,
               f_label = None, f_comment = None\<rparr>]
            [] [] None (''message M {'' @ twoFields @ ''}''))"
  by (simp add: ev twoFields_def)

text \<open>
  A brace in the place of the tag is counted by the search for the closing brace of
  the message. On \<open>string x = {;\<close> the message does not close, and the valid field on
  the next line is lost with the whole body, in both copies.
\<close>

theorem brace_in_tag_loses_later_field:
  "parseMessage ''M'' (''message M {'' @ [nl] @ ''  string x = {;'' @ [nl] @ ''  int32 y = 2;''
       @ [nl] @ ''}'') = Inr (MessageInfo ''M'' [] [] [] None [])
   \<and> parseMessage_src ''M'' (''message M {'' @ [nl] @ ''  string x = {;'' @ [nl] @ ''  int32 y = 2;''
       @ [nl] @ ''}'') = Inr (MessageInfo ''M'' [] [] [] None [])"
  by (simp add: ev)

section \<open>Enum values\<close>

text \<open>
  C8. On the text \<open>enum Color { RED = 0; // primary\<close>, a newline, \<open>BLUE = 1; }\<close>, the
  hover on \<open>BLUE\<close> should return the value \<open>BLUE\<close> with number 1 and no comment.
  The pattern of \<open>parseEnum\<close> wants a newline between the body and the closing brace:
  on this text it finds no enum, the values are empty, and the lookup of \<open>BLUE\<close>
  returns nothing.
\<close>

theorem hover_BLUE_finds_nothing:
  "parseEnum ''Color'' (''enum Color { RED = 0; // primary'' @ [nl] @ ''BLUE = 1; }'') =
     Inr \<lparr>e_name = ''Color'', e_values = [], e_comment = None, e_rawSource = []\<rparr>
   \<and> hoverEnumValue (''enum Color { RED = 0; // primary'' @ [nl] @ ''BLUE = 1; }'') 1 ''BLUE'' =
     Inr None
   \<and> getMessageOrEnumInfo
       (map_of [(''/w/doc.proto'', ''enum Color { RED = 0; // primary'' @ [nl] @ ''BLUE = 1; }'')])
       ''/w/doc.proto'' [] [] ''BLUE'' = None"
  by (simp add: ev)

text \<open>With the closing brace on a line of its own the lookup returns the value.\<close>

lemma hover_BLUE_brace_on_own_line:
  "hoverEnumValue (''enum Color { RED = 0; // primary'' @ [nl] @ ''BLUE = 1;'' @ [nl] @ ''}'') 1 ''BLUE'' =
     Inr (Some (\<lparr>e_name = ''Color'',
                  e_values = [\<lparr>v_name = ''RED'', v_number = Exact 0, v_comment = Some ''primary''\<rparr>,
                              \<lparr>v_name = ''BLUE'', v_number = Exact 1, v_comment = None\<rparr>],
                  e_comment = None,
                  e_rawSource = ''enum Color { RED = 0; // primary'' @ [nl] @ ''BLUE = 1;'' @ [nl] @ ''}''\<rparr>,
                \<lparr>v_name = ''BLUE'', v_number = Exact 1, v_comment = None\<rparr>))"
  by (simp add: ev)

text \<open>
  Both copies locate the enum with the same pattern: on a text where one finds no enum,
  the other finds none, and they return the same record.
\<close>

lemma parseEnum_src_not_located:
  "nameRx enumName = Inr nm \<Longrightarrow> execRx (enumRx nm) content = None \<Longrightarrow>
     parseEnum_src enumName content = parseEnum enumName content"
  by (simp add: parseEnum_def parseEnum_src_def)

section \<open>The line of an enum value\<close>














definition twoValues :: string where
  "twoValues = ''enum E {'' @ [nl] @ ''  POS = 12;'' @ [nl] @ ''  TOP=7 ; // seven'' @ [nl] @ ''}''"



text \<open>
  The pattern of the copy in \<open>src/proto3Hover.ts\<close> has the semicolon inside the group of
  the comment: a value line that ends with the semicolon is not recorded by that copy.
\<close>

lemma parseEnum_src_wants_comment:
  "e_values (projr (parseEnum_src ''E'' twoValues)) =
     [\<lparr>v_name = ''TOP'', v_number = Exact 7, v_comment = Some ''seven''\<rparr>]"
  "e_values (projr (parseEnum ''E'' twoValues)) =
     [\<lparr>v_name = ''POS'', v_number = Exact 12, v_comment = None\<rparr>,
      \<lparr>v_name = ''TOP'', v_number = Exact 7, v_comment = Some ''seven''\<rparr>]"
  by (simp_all add: ev twoValues_def)

section \<open>Failing soft\<close>

text \<open>
  The opening construct of \<open>name\<close> in a text: the keyword, at least one blank, the name,
  blanks if any, and the opening brace. \<open>opensAt\<close> finds it at the start of the text,
  \<open>opensIn\<close> anywhere in it.
\<close>

definition opensAt :: "string \<Rightarrow> string \<Rightarrow> string \<Rightarrow> bool" where
  "opensAt keyword name s =
     (startsWith s keyword \<and>
      (let a = drop (length keyword) s;
           b = dropWhile isSpace a
       in a \<noteq> b \<and> startsWith b name \<and>
          (case dropWhile isSpace (drop (length name) b) of
             [] \<Rightarrow> False
           | c # _ \<Rightarrow> c = CHR ''{'')))"

fun opensIn :: "string \<Rightarrow> string \<Rightarrow> string \<Rightarrow> bool" where
  "opensIn keyword name [] = opensAt keyword name []"
| "opensIn keyword name (c # s) = (opensAt keyword name (c # s) \<or> opensIn keyword name s)"

lemma opensIn_suffix: "opensAt keyword name s \<Longrightarrow> opensIn keyword name (u @ s)"
proof (induction u)
  case Nil
  then show ?case by (cases s) simp_all
next
  case (Cons c u)
  then show ?case by simp
qed

text \<open>\<open>KEYWORD\s+NAME\s*\{\<close>, followed by anything, matches only at an opening construct.\<close>

lemma keyword_opens:
  assumes hit: "mt inp (Seq (lit keyword) (Seq (plus ws) (Seq (lit name) (Seq (Star ws) r)))) (cs, s) \<noteq> []"
    and brace: "\<And>y. mt inp r y \<noteq> [] \<Longrightarrow> \<exists>t. snd y = CHR ''{'' # t"
    and name: "list_all isWord name"
  shows "opensAt keyword name s"
proof -
  from hit obtain z where
    "z \<in> set (mt inp (Seq (lit keyword) (Seq (plus ws) (Seq (lit name) (Seq (Star ws) r)))) (cs, s))"
    by (meson last_in_set)
  then obtain a b c d where a: "a \<in> set (mt inp (lit keyword) (cs, s))"
    and b: "b \<in> set (mt inp (plus ws) a)" and c: "c \<in> set (mt inp (lit name) b)"
    and d: "d \<in> set (mt inp (Star ws) c)" and z: "z \<in> set (mt inp r d)"
    unfolding mt_Seq_mem by blast
  define A where "A = drop (length keyword) s"
  from a have k: "startsWith s keyword" and sa: "snd a = A"
    by (auto simp: mt_lit startsWith_def A_def split: if_splits)
  from mt_plus_Atom_mem [of b inp isSpace "fst a" "snd a"] b
  obtain w where w: "snd a = w @ snd b" "w \<noteq> []" "list_all isSpace w" by auto
  from c have n: "take (length name) (snd b) = name" and sc: "snd c = drop (length name) (snd b)"
    using mt_lit [of inp name "fst b" "snd b"] by (auto split: if_splits)
  from d obtain w2 where w2: "snd c = w2 @ snd d" "list_all isSpace w2"
    using mt_Star_Atom_mem [of d inp isSpace "fst c" "snd c"] by auto
  from z have "mt inp r d \<noteq> []" by auto
  from brace [OF this] obtain t where t: "snd d = CHR ''{'' # t" by blast
  have sb: "snd b = name @ w2 @ CHR ''{'' # t"
    using n sc w2(1) t by (metis append_take_drop_id)
  define B where "B = dropWhile isSpace A"
  have B: "B = (if name = [] then CHR ''{'' # t else snd b)"
  proof (cases name)
    case Nil
    from w(3) w2(2) have "list_all isSpace (w @ w2)" by simp
    from run_then(1) [OF this, of "CHR ''{'' # t"] show ?thesis
      unfolding B_def sa [symmetric] w(1) sb Nil by (simp add: isSpace_def)
  next
    case (Cons n0 nr)
    with name have "case snd b of [] \<Rightarrow> True | x # _ \<Rightarrow> \<not> isSpace x"
      unfolding sb by (auto dest: word_not_space)
    from run_then(1) [OF w(3) this] Cons show ?thesis
      unfolding B_def sa [symmetric] w(1) by simp
  qed
  have "length B < length (snd a)"
    using w(1,2) unfolding B sb by (auto split: if_splits)
  then have ne: "A \<noteq> B" unfolding sa by auto
  have st: "startsWith B name"
    unfolding B sb by (simp add: startsWith_def)
  have "dropWhile isSpace (w2 @ CHR ''{'' # t) = CHR ''{'' # t"
    using run_then(1) [OF w2(2), of "CHR ''{'' # t"] by (simp add: isSpace_def)
  then have "dropWhile isSpace (drop (length name) B) = CHR ''{'' # t"
    unfolding B sb by (simp add: isSpace_def)
  with k ne st show ?thesis
    unfolding opensAt_def Let_def A_def [symmetric] B_def [symmetric] by simp
qed

lemma no_opening_dead:
  assumes "\<not> opensIn keyword name text" and name: "list_all isWord name"
    and brace: "\<And>y. mt inp r y \<noteq> [] \<Longrightarrow> \<exists>t. snd y = CHR ''{'' # t"
  shows "deadOn inp (Seq (lit keyword) (Seq (plus ws) (Seq (lit name) (Seq (Star ws) r)))) text"
  unfolding deadOn_def
proof (intro allI impI)
  fix cs s u
  assume "text = u @ s"
  with assms(1) opensIn_suffix [of keyword name s u] have "\<not> opensAt keyword name s" by auto
  with keyword_opens [where cs = cs and s = s and keyword = keyword, OF _ brace name]
  show "mt inp (Seq (lit keyword) (Seq (plus ws) (Seq (lit name) (Seq (Star ws) r)))) (cs, s) = []"
    by blast
qed

lemma brace_first_ch: "mt inp (ch CHR ''{'') y \<noteq> [] \<Longrightarrow> \<exists>t. snd y = CHR ''{'' # t"
  by (cases y; cases "snd y") (auto simp: ch_def split: if_splits)

lemma brace_first_Seq: "mt inp (Seq (ch CHR ''{'') r) y \<noteq> [] \<Longrightarrow> \<exists>t. snd y = CHR ''{'' # t"
  by (cases y; cases "snd y") (auto simp: ch_def split: if_splits)

lemma no_opening_search:
  assumes "list_all isWord name"
  shows "\<not> opensIn ''message'' name text \<Longrightarrow> execRx (messageStartRx (lit name)) text = None"
    and "\<not> opensIn ''enum'' name text \<Longrightarrow> execRx (enumRx (lit name)) text = None"
proof -
  assume h: "\<not> opensIn ''message'' name text"
  have "deadOn text (Seq (lit ''message'') (Seq (plus ws) (Seq (lit name)
          (Seq (Star ws) (ch CHR ''{''))))) text"
    by (rule no_opening_dead [OF h assms]) (rule brace_first_ch)
  then show "execRx (messageStartRx (lit name)) text = None"
    unfolding messageStartRx_def seqs.simps
    by (intro deadOn_execRx deadOn_Seq [of _ _ _ "Grp 1 commentRun"] deadOn_Seq [of _ _ _ "Star ws"])
next
  assume h: "\<not> opensIn ''enum'' name text"
  have "deadOn text (Seq (lit ''enum'') (Seq (plus ws) (Seq (lit name)
          (Seq (Star ws) (Seq (ch CHR ''{'') r))))) text" for r
    by (rule no_opening_dead [OF h assms]) (rule brace_first_Seq)
  then show "execRx (enumRx (lit name)) text = None"
    unfolding enumRx_def seqs.simps
    by (intro deadOn_execRx deadOn_Seq [of _ _ _ "Grp 1 commentRun"] deadOn_Seq [of _ _ _ "Star ws"])
qed


text \<open>
  For a message the converse holds as well: the search of \<open>parseMessage\<close> fails exactly
  on the texts without an opening construct.
\<close>

lemma searchFrom_None:
  "searchFrom inp r s = None \<Longrightarrow> s = u @ v \<Longrightarrow> mt inp r (Map.empty, v) = []"
proof (induction s arbitrary: u)
  case Nil
  then show ?case
    by (subst (asm) searchFrom.simps) (auto split: list.splits)
next
  case (Cons c s)
  from Cons.prems(1) have here: "mt inp r (Map.empty, c # s) = []"
    by (subst (asm) searchFrom.simps) (auto split: list.splits)
  with Cons.prems(1) have later: "searchFrom inp r s = None"
    by (subst (asm) searchFrom.simps) simp
  show ?case
  proof (cases u)
    case Nil
    with Cons.prems(2) here show ?thesis by simp
  next
    case (Cons d u')
    with Cons.prems(2) have "s = u' @ v" by simp
    from Cons.IH [OF later this] show ?thesis .
  qed
qed

lemma opensIn_at: "opensIn keyword name content \<Longrightarrow> \<exists>u s. content = u @ s \<and> opensAt keyword name s"
proof (induction content)
  case Nil
  then show ?case by auto
next
  case (Cons c content)
  show ?case
  proof (cases "opensAt keyword name (c # content)")
    case True
    then have "c # content = [] @ (c # content) \<and> opensAt keyword name (c # content)" by simp
    then show ?thesis by blast
  next
    case False
    with Cons obtain u s where "content = u @ s" "opensAt keyword name s" by auto
    then have "c # content = (c # u) @ s \<and> opensAt keyword name s" by simp
    then show ?thesis by blast
  qed
qed

lemma first_mem: "\<exists>t. xs = x # t \<Longrightarrow> x \<in> set xs"
  by auto

lemma opens_hit:
  assumes "opensAt keyword name s"
  shows "mt inp (messageStartRx (lit name)) (cs, s) \<noteq> [] \<or> keyword \<noteq> ''message''"
proof (cases "keyword = ''message''")
  case False
  then show ?thesis by simp
next
  case True
  define A where "A = drop (length keyword) s"
  define B where "B = dropWhile isSpace A"
  define R where "R = drop (length name) B"
  define D where "D = dropWhile isSpace R"
  from assms have k: "s = keyword @ A" and ne: "A \<noteq> B" and n: "B = name @ R"
    and d: "case D of [] \<Rightarrow> False | c # _ \<Rightarrow> c = CHR ''{''"
    unfolding opensAt_def Let_def startsWith_def A_def [symmetric] B_def [symmetric]
      R_def [symmetric] D_def [symmetric]
    by (metis append_take_drop_id A_def R_def)+
  from d obtain t where D: "D = CHR ''{'' # t" by (cases D) auto
  let ?c = "cs(1 \<mapsto> [])"
  have A: "A = takeWhile isSpace A @ B" by (simp add: B_def)
  with ne have w: "takeWhile isSpace A \<noteq> []" by auto
  have wl: "list_all isSpace (takeWhile isSpace A)"
    by (simp add: list_all_iff) (meson set_takeWhileD)
  have hdB: "case B of [] \<Rightarrow> True | x # _ \<Rightarrow> \<not> isSpace x"
    using hd_dropWhile [of isSpace A] unfolding B_def [symmetric] by (cases B) auto
  have R: "R = takeWhile isSpace R @ D" by (simp add: D_def)
  have rl: "list_all isSpace (takeWhile isSpace R)"
    by (simp add: list_all_iff) (meson set_takeWhileD)
  have hdD: "case D of [] \<Rightarrow> True | x # _ \<Rightarrow> \<not> isSpace x"
    unfolding D by (simp add: isSpace_def)
  have 1: "\<exists>t'. mt inp (lit keyword) (?c, s) = (?c, A) # t'"
    using mt_lit_append [of inp keyword ?c A] k by simp
  have 2: "\<exists>t'. mt inp (plus ws) (?c, A) = (?c, B) # t'"
    using first_plus_Atom [OF w wl hdB, of inp ?c] A by simp
  have 3: "\<exists>t'. mt inp (lit name) (?c, B) = (?c, R) # t'"
    using mt_lit_append [of inp name ?c R] n by simp
  have 4: "\<exists>t'. mt inp (Star ws) (?c, R) = (?c, D) # t'"
    using mt_Star_Atom_first [OF rl hdD, of inp ?c] R by simp
  have 5: "\<exists>t'. mt inp (ch CHR ''{'') (?c, D) = (?c, t) # t'"
    unfolding D by simp
  have "\<exists>t'. mt inp (Seq (lit keyword) (Seq (plus ws) (Seq (lit name) (Seq (Star ws) (ch CHR ''{'')))))
                (?c, s) = (?c, t) # t'"
    by (intro first_Seq [OF 1] first_Seq [OF 2] first_Seq [OF 3] first_Seq [OF 4] 5)
  then have "(?c, t) \<in> set (mt inp (Seq (lit keyword) (Seq (plus ws) (Seq (lit name)
                  (Seq (Star ws) (ch CHR ''{''))))) (?c, s))"
    by (rule first_mem)
  note K = this [unfolded True]
  have G: "(?c, s) \<in> set (mt inp (Grp 1 commentRun) (cs, s))"
    unfolding commentRun_def by (simp del: mt.simps(3,4))
  have S: "(?c, s) \<in> set (mt inp (Star ws) (?c, s))"
    unfolding mt_Star_Atom_mem by simp
  have "(?c, t) \<in> set (mt inp (messageStartRx (lit name)) (cs, s))"
    unfolding messageStartRx_def seqs.simps mt_Seq_mem [of _ _ "Grp 1 commentRun"]
      mt_Seq_mem [of _ _ "Star ws" "Seq (lit ''message'') _"]
    using G S K by blast
  then show ?thesis by auto
qed

lemma located_iff:
  assumes "list_all isWord name"
  shows "execRx (messageStartRx (lit name)) content = None \<longleftrightarrow> \<not> opensIn ''message'' name content"
proof
  assume n: "execRx (messageStartRx (lit name)) content = None"
  show "\<not> opensIn ''message'' name content"
  proof
    assume "opensIn ''message'' name content"
    from opensIn_at [OF this] obtain u s where t: "content = u @ s" and o: "opensAt ''message'' name s"
      by blast
    from n have "searchFrom content (messageStartRx (lit name)) content = None"
      by (simp add: execRx_def)
    from searchFrom_None [OF this t] opens_hit [OF o, of content Map.empty]
    show False by simp
  qed
next
  assume "\<not> opensIn ''message'' name content"
  then show "execRx (messageStartRx (lit name)) content = None"
    by (rule no_opening_search(1) [OF assms])
qed

text \<open>
  C3, for a name of word characters. When the text holds no opening construct of the
  name, \<open>parseMessage\<close> returns the message of that name with no fields, no nested
  messages and no nested enums, and \<open>parseEnum\<close> the enum of that name with no values;
  neither throws. This holds in both copies.
\<close>

theorem no_opening_construct:
  assumes "list_all isWord name"
  shows "(\<not> opensIn ''message'' name content \<longrightarrow>
            parseMessage name content = Inr (MessageInfo name [] [] [] None [])
          \<and> parseMessage_src name content = Inr (MessageInfo name [] [] [] None []))
       \<and> (\<not> opensIn ''enum'' name content \<longrightarrow>
            parseEnum name content =
              Inr \<lparr>e_name = name, e_values = [], e_comment = None, e_rawSource = []\<rparr>
          \<and> parseEnum_src name content =
              Inr \<lparr>e_name = name, e_values = [], e_comment = None, e_rawSource = []\<rparr>)"
  using no_opening_search [OF assms, of content] nameRx_word [OF assms]
  by (simp add: parseMessage.simps parseMessage_src_def parseEnum_def parseEnum_src_def
        emptyMessage_def)

theorem no_opening_construct_witness:
  "parseMessage ''Foo'' ''message Foobar { int32 x = 1; }'' = Inr (MessageInfo ''Foo'' [] [] [] None [])
   \<and> parseMessage_src ''Foo'' ''message Foobar { int32 x = 1; }'' =
       Inr (MessageInfo ''Foo'' [] [] [] None [])
   \<and> parseEnum ''Foo'' ''message Foo { int32 x = 1; }'' =
       Inr \<lparr>e_name = ''Foo'', e_values = [], e_comment = None, e_rawSource = []\<rparr>
   \<and> parseEnum_src ''Foo'' ''message Foo { int32 x = 1; }'' =
       Inr \<lparr>e_name = ''Foo'', e_values = [], e_comment = None, e_rawSource = []\<rparr>"
proof -
  have m: "\<not> opensIn ''message'' ''Foo'' ''message Foobar { int32 x = 1; }''"
    by (simp add: ev opensAt_def)
  have e: "\<not> opensIn ''enum'' ''Foo'' ''message Foo { int32 x = 1; }''"
    by (simp add: ev opensAt_def)
  show ?thesis
    using no_opening_construct [of "''Foo''" "''message Foobar { int32 x = 1; }''"]
      no_opening_construct [of "''Foo''" "''message Foo { int32 x = 1; }''"] m e
    by (simp add: isWord_def)
qed

text \<open>
  A name that is not a pattern: \<open>new RegExp\<close> throws before the text is looked at,
  whether it holds an opening construct or not.
\<close>

theorem no_opening_construct_bad_name:
  "\<not> opensIn ''message'' ''Foo('' ''package a;'' \<and> \<not> opensIn ''enum'' ''Foo('' ''package a;''
   \<and> parseMessage ''Foo('' ''package a;'' = Inl RegExpSyntaxError
   \<and> parseEnum ''Foo('' ''package a;'' = Inl RegExpSyntaxError
   \<and> parseMessage_src ''Foo('' ''package a;'' = Inl RegExpSyntaxError
   \<and> parseEnum_src ''Foo('' ''package a;'' = Inl RegExpSyntaxError"
  by (simp add: ev opensAt_def)

section \<open>Totality\<close>

text \<open>
  What \<open>parseMessageWithin\<close> returns, \<open>parseMessage\<close> returns: the bound on the
  stack only adds the \<open>RangeError\<close>.
\<close>

lemma bodyStep_agree:
  assumes "\<And>n m. pm n bodyContent = Inr m \<Longrightarrow> pm' n bodyContent = Inr m"
    and "bodyStep pm pe bodyContent line st = Inr st'"
  shows "bodyStep pm' pe bodyContent line st = Inr st'"
proof (cases "execRx nestedMessageRx (trim line)")
  case None
  then have "bodyStep pm' pe bodyContent line st = bodyStep pm pe bodyContent line st"
    by (simp add: bodyStep_def Let_def)
  with assms(2) show ?thesis by simp
next
  case (Some nestedMessageMatch)
  show ?thesis
  proof (cases "(startsWith (trim line) ''//'' \<and> braceDepth st = 0)
                \<or> (trim line = [] \<or> trim line = ''{'' \<or> trim line = ''}'')
                \<or> braceDepth st \<noteq> 0")
    case True
    then have "bodyStep pm' pe bodyContent line st = bodyStep pm pe bodyContent line st"
      unfolding bodyStep_def Let_def by auto
    with assms(2) show ?thesis by simp
  next
    case False
    have step: "bodyStep q pe bodyContent line st =
        (case q (grp nestedMessageMatch 1) bodyContent of
           Inl e \<Rightarrow> Inl e
         | Inr nestedInfo \<Rightarrow>
             Inr (st\<lparr>msgNestedMessages := msgNestedMessages st @ [nestedInfo],
                      pendingComments := [],
                      braceDepth := braceDepth st
                        + (int (countChar CHR ''{'' line) - int (countChar CHR ''}'' line))\<rparr>))" for q
    proof -
      from False have "\<not> startsWith (trim line) ''//''" "braceDepth st = 0"
        "trim line \<noteq> []" "trim line \<noteq> ''{''" "trim line \<noteq> ''}''"
        by auto
      with Some show ?thesis
        unfolding bodyStep_def Let_def by simp
    qed
    from assms(2) obtain nestedInfo where
      i: "pm (grp nestedMessageMatch 1) bodyContent = Inr nestedInfo"
      unfolding step by (cases "pm (grp nestedMessageMatch 1) bodyContent") simp_all
    from assms(1) [OF i] i assms(2) show ?thesis
      unfolding step by simp
  qed
qed

lemma parseBody_agree:
  assumes "\<And>n m. pm n bodyContent = Inr m \<Longrightarrow> pm' n bodyContent = Inr m"
  shows "parseBody pm pe bodyContent lines st = Inr st' \<Longrightarrow>
         parseBody pm' pe bodyContent lines st = Inr st'"
proof (induction lines arbitrary: st)
  case Nil
  then show ?case by simp
next
  case (Cons l ls)
  from Cons.prems obtain s1 where s1: "bodyStep pm pe bodyContent l st = Inr s1"
    and r: "parseBody pm pe bodyContent ls s1 = Inr st'"
    by (auto split: sum.splits)
  from bodyStep_agree [of pm bodyContent pm', OF assms s1] Cons.IH [OF r]
  show ?case by simp
qed

lemma parseMessageWithin_agree:
  "parseMessageWithin frames name content = Inr m \<Longrightarrow> parseMessage name content = Inr m"
proof (induction frames arbitrary: name content m)
  case 0
  then show ?case by (simp add: parseMessageWithin.simps)
next
  case (Suc k)
  show ?case
  proof (cases "nameRx name")
    case (Inl e)
    with Suc.prems show ?thesis by (simp add: parseMessageWithin.simps)
  next
    case (Inr nm)
    show ?thesis
    proof (cases "execRx (messageStartRx nm) content")
      case None
      with Inr Suc.prems show ?thesis
        by (simp add: parseMessageWithin.simps parseMessage.simps [of name content])
    next
      case (Some startMatch)
      define openBraceIndex where
        "openBraceIndex = int (index startMatch) + lastIndexOfChar (matched startMatch) CHR ''{''"
      define endIndex where "endIndex = braceScan content openBraceIndex 0"
      define bodyContent where "bodyContent = substring content (openBraceIndex + 1) endIndex"
      show ?thesis
      proof (cases "endIndex = -1")
        case True
        with Inr Some Suc.prems show ?thesis
          by (simp add: parseMessageWithin.simps parseMessage.simps [of name content] Let_def
                endIndex_def openBraceIndex_def)
      next
        case False
        show ?thesis
        proof (cases "parseBody (parseMessageWithin k) parseEnum bodyContent
                        (splitOn nl bodyContent) initialBody")
          case (Inl e)
          with Inr Some False Suc.prems show ?thesis
            by (simp add: parseMessageWithin.simps Let_def endIndex_def openBraceIndex_def
                  bodyContent_def)
        next
          case body: (Inr st)
          have "parseBody parseMessage parseEnum bodyContent (splitOn nl bodyContent) initialBody
                  = Inr st"
            by (rule parseBody_agree [of "parseMessageWithin k", OF Suc.IH body])
          with body Inr Some False Suc.prems show ?thesis
            by (simp add: parseMessageWithin.simps parseMessage.simps [of name content] Let_def
                  endIndex_def openBraceIndex_def bodyContent_def)
        qed
      qed
    qed
  qed
qed

lemma countChar_take: "countChar c (take k s) \<le> countChar c s"
  unfolding countChar_def
  by (metis append_take_drop_id filter_append length_append le_add1)

lemma body_fewer_braces:
  assumes name: "list_all isWord name"
    and hit: "execRx (messageStartRx (lit name)) content = Some startMatch"
    and ob: "openBraceIndex = int (index startMatch) + lastIndexOfChar (matched startMatch) CHR ''{''"
    and e: "braceScan content openBraceIndex 0 = endIndex" "endIndex \<noteq> -1"
  shows "countChar CHR ''{'' (substring content (openBraceIndex + 1) endIndex)
           < countChar CHR ''{'' content"
proof -
  from hit obtain u v cs s' t where T: "content = u @ v"
    and first: "mt content (messageStartRx (lit name)) (Map.empty, v) = (cs, s') # t"
    and mm: "startMatch = \<lparr>index = length content - length v,
                 matched = take (length v - length s') v, groups = cs\<rparr>"
    unfolding execRx_def by (blast dest: searchFrom_decomp)
  from endsIn_matched [OF messageStartRx_props(2) [OF name] hit]
  obtain w where w: "matched startMatch = w @ [CHR ''{'']" by blast
  from first have "(cs, s') \<in> set (mt content (messageStartRx (lit name)) (Map.empty, v))" by simp
  from mt_suffix [OF this] obtain x where v: "v = x @ s'" by auto
  with mm have "matched startMatch = x" "index startMatch = length u"
    using T by simp_all
  with w v T have c: "content = (u @ w) @ CHR ''{'' # s'" and i: "openBraceIndex = int (length (u @ w))"
    using ob by (simp_all add: lastIndexOfChar_last)
  from braceScan_after [OF e] braceScan_range [OF e]
  have r: "openBraceIndex < endIndex" "endIndex < int (length content)" by simp_all
  then have "substring content (openBraceIndex + 1) endIndex =
      take (nat (endIndex - (openBraceIndex + 1))) (drop (nat (openBraceIndex + 1)) content)"
    using i by (intro substring_take_drop) simp_all
  also have "drop (nat (openBraceIndex + 1)) content = s'"
    unfolding i c by (simp add: nat_add_distrib)
  finally have "countChar CHR ''{'' (substring content (openBraceIndex + 1) endIndex)
      \<le> countChar CHR ''{'' s'"
    by (simp add: countChar_take)
  also have "\<dots> < countChar CHR ''{'' content"
    unfolding c by (simp add: countChar_def)
  finally show ?thesis .
qed

lemma parseMessageWithin_total:
  "list_all isWord name \<Longrightarrow> countChar CHR ''{'' content < frames \<Longrightarrow>
     \<exists>m. parseMessageWithin frames name content = Inr m"
proof (induction frames arbitrary: name content)
  case 0
  then show ?case by simp
next
  case (Suc k)
  note nm = nameRx_word [OF Suc.prems(1)]
  show ?case
  proof (cases "execRx (messageStartRx (lit name)) content")
    case None
    with nm show ?thesis by (simp add: parseMessageWithin.simps)
  next
    case (Some startMatch)
    define openBraceIndex where
      "openBraceIndex = int (index startMatch) + lastIndexOfChar (matched startMatch) CHR ''{''"
    define endIndex where "endIndex = braceScan content openBraceIndex 0"
    define bodyContent where "bodyContent = substring content (openBraceIndex + 1) endIndex"
    show ?thesis
    proof (cases "endIndex = -1")
      case True
      with nm Some show ?thesis
        by (simp add: parseMessageWithin.simps Let_def endIndex_def openBraceIndex_def)
    next
      case False
      from body_fewer_braces [OF Suc.prems(1) Some openBraceIndex_def endIndex_def [symmetric] False]
        Suc.prems(2)
      have "countChar CHR ''{'' bodyContent < k" unfolding bodyContent_def by simp
      then have "\<And>n. list_all isWord n \<Longrightarrow> \<exists>m. parseMessageWithin k n bodyContent = Inr m"
        using Suc.IH by blast
      from parseBody_total [of "parseMessageWithin k" bodyContent parseEnum] this parseEnum_total
      obtain st where
        "parseBody (parseMessageWithin k) parseEnum bodyContent (splitOn nl bodyContent) initialBody = Inr st"
        by blast
      with nm Some False show ?thesis
        by (simp add: parseMessageWithin.simps Let_def endIndex_def openBraceIndex_def bodyContent_def)
    qed
  qed
qed

lemma parsers_src_total:
  assumes "list_all isWord name"
  shows "\<exists>m. parseMessage_src name content = Inr m" and "\<exists>e. parseEnum_src name content = Inr e"
  using nameRx_word [OF assms]
  by (auto simp: parseMessage_src_def parseEnum_src_def Let_def split: option.splits)

text \<open>
  C10, for the names that the callers pass and the nesting that the stack has room for.
  For every name of word characters, \<open>parseEnum\<close> and the two parsers of the copy
  without nested messages return a record on every text and do not throw, and
  \<open>parseMessage\<close> does so on every text with fewer opening braces than the stack has
  room for activations of \<open>parseMessage\<close>; its result is then that of \<open>parseMessage\<close>
  run without a bound.
\<close>

theorem parsers_total:
  assumes "list_all isWord name"
  shows "(countChar CHR ''{'' content < frames \<longrightarrow>
            (\<exists>m. parseMessageWithin frames name content = Inr m
                 \<and> parseMessage name content = Inr m))
       \<and> (\<exists>e. parseEnum name content = Inr e)
       \<and> (\<exists>m. parseMessage_src name content = Inr m)
       \<and> (\<exists>e. parseEnum_src name content = Inr e)"
  using parseMessageWithin_total [OF assms, of content frames]
    parseMessageWithin_agree [of frames name content]
    parseEnum_total [OF assms] parsers_src_total [OF assms]
  by blast

theorem parsers_total_witness:
  "(\<exists>m. parseMessageWithin 2 ''Foo'' ''message Foo { // never closes'' = Inr m
        \<and> parseMessage ''Foo'' ''message Foo { // never closes'' = Inr m)
   \<and> (\<exists>e. parseEnum ''Foo'' ''message Foo { // never closes'' = Inr e)
   \<and> (\<exists>m. parseMessage_src ''Foo'' ''message Foo { // never closes'' = Inr m)
   \<and> (\<exists>e. parseEnum_src ''Foo'' ''message Foo { // never closes'' = Inr e)"
  using parsers_total [of "''Foo''" "''message Foo { // never closes''" 2]
  by (simp add: isWord_def countChar_def)

text \<open>A name that is not a pattern makes \<open>new RegExp\<close> throw, in every parser.\<close>

theorem parseMessage_throws_on_parenthesis:
  "parseMessage ''('' [] = Inl RegExpSyntaxError \<and> parseEnum ''('' [] = Inl RegExpSyntaxError
   \<and> parseMessage_src ''('' [] = Inl RegExpSyntaxError
   \<and> parseEnum_src ''('' [] = Inl RegExpSyntaxError"
  by (simp add: ev)

text \<open>
  A message nested deeper than the stack has room for makes the innermost call throw,
  and nothing on the way up catches it.
\<close>

lemma nesting_beyond_the_stack:
  "parseMessageWithin 2 ''A''
     (''message A {'' @ [nl] @ ''message B {'' @ [nl] @ ''message C {}'' @ [nl] @ ''}'' @ [nl] @ ''}'') =
     Inl RangeError"
  by (simp add: ev numeral_2_eq_2)

end
